theory Spec2Isabelle
  imports Complex_Main
begin

section \<open>The TouchScreen controller of touch-ts\<close>

text \<open>
  A shallow embedding of \<^verbatim>\<open>src/models/touch-screen.ts\<close> (class \<^verbatim>\<open>TouchScreen\<close>) and of
  the enum \<^verbatim>\<open>TouchTypes\<close> it imports.

  JavaScript numbers are modelled as real numbers: rounding and overflow of IEEE doubles
  are outside the model. The one place where the source leaves the finite numbers, the
  divisions by \<^verbatim>\<open>delta.time\<close> in \<^verbatim>\<open>onEnd\<close> (zero when the end event carries the
  timestamp of the start of the timing window), is modelled with explicit non-finite
  values, which then flow into the closure of \<^verbatim>\<open>smoothScrollBy\<close>.
\<close>

subsection \<open>Numbers that may be non-finite\<close>

datatype jsnum = Fin real | PosInf | NegInf | NaN

text \<open>
  The arithmetic of IEEE 754 on these values, without rounding. The sign of a zero is not
  represented; the only zero divisor the source can produce is
  \<^verbatim>\<open>(lastEnd - lastStart) * 0.008\<close> with equal timestamps, which is \<^verbatim>\<open>+0\<close>, and a division
  by \<open>Fin 0\<close> is read that way.
\<close>

fun js_neg :: "jsnum \<Rightarrow> jsnum" where
  "js_neg (Fin a) = Fin (- a)"
| "js_neg PosInf = NegInf"
| "js_neg NegInf = PosInf"
| "js_neg NaN = NaN"

fun js_plus :: "jsnum \<Rightarrow> jsnum \<Rightarrow> jsnum" where
  "js_plus (Fin a) (Fin b) = Fin (a + b)"
| "js_plus NaN _ = NaN"
| "js_plus _ NaN = NaN"
| "js_plus PosInf NegInf = NaN"
| "js_plus NegInf PosInf = NaN"
| "js_plus PosInf _ = PosInf"
| "js_plus NegInf _ = NegInf"
| "js_plus _ PosInf = PosInf"
| "js_plus _ NegInf = NegInf"

definition js_minus :: "jsnum \<Rightarrow> jsnum \<Rightarrow> jsnum" where
  "js_minus a b = js_plus a (js_neg b)"

fun js_divide :: "jsnum \<Rightarrow> jsnum \<Rightarrow> jsnum" where
  "js_divide (Fin a) (Fin b) =
     (if b \<noteq> 0 then Fin (a / b)
      else if a = 0 then NaN
      else if 0 < a then PosInf
      else NegInf)"
| "js_divide NaN _ = NaN"
| "js_divide _ NaN = NaN"
| "js_divide (Fin a) PosInf = Fin 0"
| "js_divide (Fin a) NegInf = Fin 0"
| "js_divide PosInf (Fin b) = (if 0 \<le> b then PosInf else NegInf)"
| "js_divide NegInf (Fin b) = (if 0 \<le> b then NegInf else PosInf)"
| "js_divide PosInf _ = NaN"
| "js_divide NegInf _ = NaN"

text \<open>\<^verbatim>\<open>Math.abs( d ) > 1\<close>: every comparison with \<^verbatim>\<open>NaN\<close> is false.\<close>

fun js_abs_gt_1 :: "jsnum \<Rightarrow> bool" where
  "js_abs_gt_1 (Fin a) = (1 < \<bar>a\<bar>)"
| "js_abs_gt_1 PosInf = True"
| "js_abs_gt_1 NegInf = True"
| "js_abs_gt_1 NaN = False"

text \<open>\<^verbatim>\<open>count >= time\<close> for the finite tick counter.\<close>

fun js_count_ge :: "nat \<Rightarrow> jsnum \<Rightarrow> bool" where
  "js_count_ge c (Fin t) = (t \<le> real c)"
| "js_count_ge c PosInf = False"
| "js_count_ge c NegInf = True"
| "js_count_ge c NaN = False"

text \<open>
  Writing a number to \<^verbatim>\<open>scrollLeft\<close> or \<^verbatim>\<open>scrollTop\<close>: the attribute is an unrestricted
  double whose setter replaces a non-finite value by 0. The clamping of the offset to the
  scrollable range depends on the layout and is not modelled: the stored offset is the
  one that was written.
\<close>

fun scrollSet :: "jsnum \<Rightarrow> real" where
  "scrollSet (Fin a) = a"
| "scrollSet _ = 0"

subsection \<open>The document\<close>

type_synonym elem = nat

text \<open>
  What the controller reads of the document: per node, whether it is an instance of
  \<^verbatim>\<open>HTMLElement\<close>, its \<^verbatim>\<open>parentElement\<close>, its attributes, class list and id, the
  overflow properties of its computed style and its extents.
\<close>

record dom =
  isHTMLElement :: "elem \<Rightarrow> bool"
  parentElement :: "elem \<Rightarrow> elem option"
  hasAttribute :: "elem \<Rightarrow> string \<Rightarrow> bool"
  classList :: "elem \<Rightarrow> string list"
  elemId :: "elem \<Rightarrow> string"
  overflowX :: "elem \<Rightarrow> string"
  overflowY :: "elem \<Rightarrow> string"
  scrollWidth :: "elem \<Rightarrow> real"
  clientWidth :: "elem \<Rightarrow> real"
  scrollHeight :: "elem \<Rightarrow> real"
  clientHeight :: "elem \<Rightarrow> real"

subsection \<open>Configuration\<close>

datatype TouchTypes = HORIZONTAL | VERTICAL | BOTH

text \<open>
  The constructor installs one of four implementations of \<^verbatim>\<open>isScrollable\<close>; the tag
  records which one.
\<close>

datatype scrollableImpl = ByAttribute | ByScrollability | ByClass | ById

record config =
  attribute :: string
  scrollableBy :: scrollableImpl
  continuousMode :: bool
  touchType :: TouchTypes
  minimum :: real
  sensibility :: real
  iterationLimit :: real
  isTouch :: bool

text \<open>The constructor's optional \<^verbatim>\<open>attribute\<close> argument: undefined, null or a string.\<close>

datatype attributeArg = Undefined | Null | Str string

definition selectorOf :: "attributeArg \<Rightarrow> string \<times> scrollableImpl" where
  "selectorOf a =
     (case a of
        Undefined \<Rightarrow> (''tss'', ByAttribute)
      | Null \<Rightarrow> ('''', ByScrollability)
      | Str s \<Rightarrow>
          (case s of
             c # rest \<Rightarrow>
               if c = CHR ''.'' then (rest, ByClass)
               else if c = CHR ''#'' then (rest, ById)
               else (s, ByAttribute)
           | [] \<Rightarrow> (s, ByAttribute)))"

text \<open>
  The configuration part of the constructor. \<open>detected\<close> is what the browser reports
  about touch support, used when \<^verbatim>\<open>isTouch\<close> is undefined.
\<close>

definition newConfig ::
  "attributeArg \<Rightarrow> TouchTypes option \<Rightarrow> bool option \<Rightarrow> real option \<Rightarrow> real option \<Rightarrow>
   real option \<Rightarrow> bool option \<Rightarrow> bool \<Rightarrow> config" where
  "newConfig attr ty cont minim sens limit touch detected =
     \<lparr> attribute = fst (selectorOf attr),
       scrollableBy = snd (selectorOf attr),
       continuousMode = (case cont of None \<Rightarrow> True | Some c \<Rightarrow> c),
       touchType = (case ty of None \<Rightarrow> BOTH | Some t \<Rightarrow> t),
       minimum = (case minim of None \<Rightarrow> 25 | Some m \<Rightarrow> m),
       sensibility = (case sens of None \<Rightarrow> 1 | Some v \<Rightarrow> v),
       iterationLimit = (case limit of None \<Rightarrow> 50 | Some l \<Rightarrow> l),
       isTouch = (case touch of None \<Rightarrow> detected | Some t \<Rightarrow> t) \<rparr>"

text \<open>\<^verbatim>\<open>getDelta\<close>: replaced by the multiplication when the sensibility is not 1.\<close>

definition getDelta :: "config \<Rightarrow> real \<Rightarrow> real" where
  "getDelta cfg v = (if sensibility cfg \<noteq> 1 then v * sensibility cfg else v)"

subsection \<open>Scrollable-surface detection\<close>

record scrollability =
  sx :: bool
  sy :: bool

definition overflowAllows :: "string \<Rightarrow> bool" where
  "overflowAllows v = (v = ''auto'' \<or> v = ''scroll'' \<or> v = ''overlay'')"

definition getScrollability :: "dom \<Rightarrow> elem \<Rightarrow> scrollability" where
  "getScrollability d e =
     (if \<not> isHTMLElement d e then \<lparr> sx = False, sy = False \<rparr>
      else
        \<lparr> sx = (overflowAllows (overflowX d e) \<and> clientWidth d e + 1 < scrollWidth d e),
          sy = (overflowAllows (overflowY d e) \<and> clientHeight d e + 1 < scrollHeight d e) \<rparr>)"

definition isScrollable :: "config \<Rightarrow> dom \<Rightarrow> elem \<Rightarrow> bool" where
  "isScrollable cfg d e =
     (case scrollableBy cfg of
        ByAttribute \<Rightarrow> hasAttribute d e (attribute cfg)
      | ByClass \<Rightarrow> attribute cfg \<in> set (classList d e)
      | ById \<Rightarrow> elemId d e = attribute cfg
      | ByScrollability \<Rightarrow>
          (if touchType cfg = BOTH
             then sx (getScrollability d e) \<or> sy (getScrollability d e)
           else if touchType cfg = HORIZONTAL then sx (getScrollability d e)
           else sy (getScrollability d e)))"

text \<open>
  \<^verbatim>\<open>findScrollable\<close>. The iteration index is a natural number (the callers pass 0, and
  the recursion adds 1); the limit is any number.
\<close>

function findScrollable :: "config \<Rightarrow> dom \<Rightarrow> elem option \<Rightarrow> nat \<Rightarrow> elem option" where
  "findScrollable cfg d None iteration = None"
| "findScrollable cfg d (Some e) iteration =
     (if isScrollable cfg d e then Some e
      else if iterationLimit cfg < real iteration then None
      else findScrollable cfg d (parentElement d e) (iteration + 1))"
  by pat_completeness auto
termination
proof (relation "measure (\<lambda>(cfg, d, e, i). nat \<lceil>iterationLimit cfg\<rceil> + 1 - i)")
  fix cfg :: config and d :: dom and e :: elem and iteration :: nat
  assume "\<not> iterationLimit cfg < real iteration"
  then have "real iteration \<le> iterationLimit cfg" by simp
  then have "int iteration \<le> \<lceil>iterationLimit cfg\<rceil>" by (simp add: le_ceiling_iff)
  then have "iteration \<le> nat \<lceil>iterationLimit cfg\<rceil>" by linarith
  then show "((cfg, d, parentElement d e, iteration + 1), (cfg, d, Some e, iteration))
      \<in> measure (\<lambda>(cfg, d, e, i). nat \<lceil>iterationLimit cfg\<rceil> + 1 - i)"
    by simp
qed simp

subsection \<open>Events, timers and the state of the controller\<close>

text \<open>
  An event as the handlers read it: its timestamp, its target, and the coordinates that
  the installed \<^verbatim>\<open>getX\<close> and \<^verbatim>\<open>getY\<close> extract (the first touch point of a touch event,
  the client coordinates of a mouse event).
\<close>

record event =
  timeStamp :: real
  target :: "elem option"
  clientX :: real
  clientY :: real

text \<open>
  The closure of the callback that \<^verbatim>\<open>smoothScrollBy\<close> hands to \<^verbatim>\<open>setInterval\<close>: the
  parameters \<^verbatim>\<open>element\<close> and \<^verbatim>\<open>time\<close>, the local object \<^verbatim>\<open>delta\<close> and the counter.
\<close>

record fling =
  fl_element :: "elem option"
  fl_x :: jsnum
  fl_y :: jsnum
  fl_time :: jsnum
  fl_count :: nat

datatype timer = Timeout | Interval fling

text \<open>
  The fields of the instance, followed by the part of the browser that the instance acts
  on: the listeners registered on \<^verbatim>\<open>window\<close> for the move event (each one a function
  object, known by its identity), the table of live timers (timeouts and intervals share
  one pool of handles), the scroll offsets of the elements, and whether
  \<^verbatim>\<open>preventDefault\<close> was called on the event being dispatched.
\<close>

record state =
  element :: "elem option"
  lastDeltaX :: real
  lastDeltaY :: real
  lastEnd :: real
  lastStart :: real
  lastX :: real
  lastY :: real
  scrolling :: bool
  scrollInterval :: "nat option"
  stopTimeout :: "nat option"
  totalDelta :: real
  moveListeners :: "nat list"
  nextFunction :: nat
  timers :: "nat \<rightharpoonup> timer"
  nextTimer :: nat
  scrollLeft :: "elem \<Rightarrow> real"
  scrollTop :: "elem \<Rightarrow> real"
  defaultPrevented :: bool

text \<open>
  The state after the constructor, on a page with the given scroll offsets. The listeners
  for the start and the end event are registered here once and never removed; the model
  dispatches those events to \<^verbatim>\<open>onStart\<close> and \<^verbatim>\<open>onEnd\<close> directly.
\<close>

definition newState :: "(elem \<Rightarrow> real) \<Rightarrow> (elem \<Rightarrow> real) \<Rightarrow> state" where
  "newState offsLeft offsTop =
     \<lparr> element = None, lastDeltaX = 0, lastDeltaY = 0, lastEnd = 0, lastStart = 0,
       lastX = 0, lastY = 0, scrolling = False, scrollInterval = None, stopTimeout = None,
       totalDelta = 0, moveListeners = [], nextFunction = 0, timers = Map.empty,
       nextTimer = 1, scrollLeft = offsLeft, scrollTop = offsTop, defaultPrevented = False \<rparr>"

definition isScrolling :: "state \<Rightarrow> bool" where
  "isScrolling s = (scrolling s \<and> element s \<noteq> None)"

subsection \<open>Listeners and timers\<close>

text \<open>
  \<^verbatim>\<open>this.onMove.bind( this )\<close> creates a new function object at every evaluation.
  \<^verbatim>\<open>addEventListener\<close> appends it; \<^verbatim>\<open>removeEventListener\<close> removes the registered
  listener that is the very object it is given, if there is one.
\<close>

definition addMoveEvent :: "state \<Rightarrow> state" where
  "addMoveEvent s =
     s\<lparr> moveListeners := moveListeners s @ [nextFunction s],
        nextFunction := nextFunction s + 1 \<rparr>"

definition removeMoveEvent :: "state \<Rightarrow> state" where
  "removeMoveEvent s =
     s\<lparr> moveListeners := remove1 (nextFunction s) (moveListeners s),
        nextFunction := nextFunction s + 1 \<rparr>"

text \<open>\<^verbatim>\<open>clearTimeout\<close> and \<^verbatim>\<open>clearInterval\<close>: the timer of that handle, if any, is gone.\<close>

definition clearTimer :: "nat \<Rightarrow> state \<Rightarrow> state" where
  "clearTimer h s = s\<lparr> timers := (timers s)(h := None) \<rparr>"

subsection \<open>Scrolling\<close>

text \<open>
  \<^verbatim>\<open>scrollBy\<close>, in the variant that the constructor installs for the scroll type. It is
  called by \<^verbatim>\<open>onMove\<close> only, after the test that an element is set.
\<close>

definition scrollBy :: "config \<Rightarrow> real \<Rightarrow> real \<Rightarrow> state \<Rightarrow> state" where
  "scrollBy cfg x y s =
     (case element s of
        None \<Rightarrow> s
      | Some el \<Rightarrow>
          (case touchType cfg of
             HORIZONTAL \<Rightarrow>
               s\<lparr> scrollLeft := (scrollLeft s)(el := scrollLeft s el + getDelta cfg x) \<rparr>
           | VERTICAL \<Rightarrow>
               s\<lparr> scrollTop := (scrollTop s)(el := scrollTop s el + getDelta cfg y) \<rparr>
           | BOTH \<Rightarrow>
               s\<lparr> scrollLeft := (scrollLeft s)(el := scrollLeft s el + getDelta cfg x),
                  scrollTop := (scrollTop s)(el := scrollTop s el + getDelta cfg y) \<rparr>))"

definition smoothScrollBy ::
  "elem option \<Rightarrow> jsnum \<Rightarrow> jsnum \<Rightarrow> jsnum \<Rightarrow> state \<Rightarrow> state" where
  "smoothScrollBy el x y time s =
     (let s1 = (case scrollInterval s of None \<Rightarrow> s | Some h \<Rightarrow> clearTimer h s);
          h = nextTimer s1
      in s1\<lparr> timers := (timers s1)(h \<mapsto>
                Interval \<lparr> fl_element = el, fl_x = x, fl_y = y, fl_time = time, fl_count = 0 \<rparr>),
             nextTimer := h + 1,
             scrollInterval := Some h \<rparr>)"

text \<open>
  One run of the interval callback of handle \<open>h\<close>, whose closure is \<open>f\<close>. The closure
  is written back to the timer table, and then \<^verbatim>\<open>clearInterval( this.scrollInterval )\<close>
  takes effect where the source calls it.
\<close>

definition tickX :: "config \<Rightarrow> elem \<Rightarrow> fling \<times> state \<Rightarrow> fling \<times> state" where
  "tickX cfg el fs =
     (let f = fst fs; s = snd fs in
      if js_abs_gt_1 (fl_x f) \<and> touchType cfg \<noteq> VERTICAL then
        (let v = js_divide (fl_x f) (fl_time f) in
         (f\<lparr> fl_x := js_minus (fl_x f) v \<rparr>,
          s\<lparr> scrollLeft := (scrollLeft s)(el := scrollSet (js_plus (Fin (scrollLeft s el)) v)) \<rparr>))
      else fs)"

definition tickY :: "config \<Rightarrow> elem \<Rightarrow> fling \<times> state \<Rightarrow> fling \<times> state" where
  "tickY cfg el fs =
     (let f = fst fs; s = snd fs in
      if js_abs_gt_1 (fl_y f) \<and> touchType cfg \<noteq> HORIZONTAL then
        (let v = js_divide (fl_y f) (fl_time f) in
         (f\<lparr> fl_y := js_minus (fl_y f) v \<rparr>,
          s\<lparr> scrollTop :=
               (scrollTop s)(el := scrollSet (js_plus (Fin (scrollTop s el)) (js_divide (fl_y f) (fl_time f)))) \<rparr>))
      else fs)"

definition clearScrollInterval :: "state \<Rightarrow> state" where
  "clearScrollInterval s = (case scrollInterval s of None \<Rightarrow> s | Some h \<Rightarrow> clearTimer h s)"

definition tick :: "config \<Rightarrow> nat \<Rightarrow> fling \<Rightarrow> state \<Rightarrow> state" where
  "tick cfg h f s =
     (case fl_element f of
        None \<Rightarrow> clearScrollInterval s
      | Some el \<Rightarrow>
          (let fs = tickY cfg el (tickX cfg el (f, s));
               f1 = (fst fs)\<lparr> fl_count := fl_count (fst fs) + 1 \<rparr>;
               s1 = (snd fs)\<lparr> timers := (timers (snd fs))(h \<mapsto> Interval f1) \<rparr>
           in if js_count_ge (fl_count f1) (fl_time f1) then clearScrollInterval s1 else s1))"

subsection \<open>The handlers\<close>

definition onStart :: "config \<Rightarrow> dom \<Rightarrow> event \<Rightarrow> state \<Rightarrow> state" where
  "onStart cfg d ev s =
     (let s1 = s\<lparr> element := findScrollable cfg d (target ev) 0 \<rparr> in
      if element s1 = None then s1
      else
        (let s2 = s1\<lparr> totalDelta := 0 \<rparr>;
             s3 = (if continuousMode cfg then s2\<lparr> lastStart := timeStamp ev \<rparr> else s2);
             s4 = s3\<lparr> lastX := clientX ev, lastY := clientY ev \<rparr>
         in addMoveEvent s4))"

definition onMove :: "config \<Rightarrow> event \<Rightarrow> state \<Rightarrow> state" where
  "onMove cfg ev s =
     (if element s = None then s
      else
        (let s1 = s\<lparr> defaultPrevented := True \<rparr>;
             dx = lastX s1 - clientX ev;
             dy = lastY s1 - clientY ev;
             s2 = scrollBy cfg dx dy s1;
             s3 = s2\<lparr> lastX := clientX ev, lastY := clientY ev \<rparr>;
             s4 = s3\<lparr> totalDelta := totalDelta s3 + (\<bar>dx\<bar> + \<bar>dy\<bar>) \<rparr>
         in if minimum cfg < totalDelta s4 then
              (let s5 = s4\<lparr> scrolling := True \<rparr> in
               if continuousMode cfg then
                 (if 200 < timeStamp ev - lastStart s5
                    then s5\<lparr> lastDeltaX := 0, lastDeltaY := 0, lastStart := timeStamp ev \<rparr>
                  else s5\<lparr> lastDeltaX := lastDeltaX s5 + getDelta cfg dx,
                           lastDeltaY := lastDeltaY s5 + getDelta cfg dy \<rparr>)
               else s5)
            else s4))"

text \<open>
  The part of \<^verbatim>\<open>onEnd\<close> that runs in continuous mode: the scaled elapsed time, the two
  guarded divisions, the start of the fling, the reset of the accumulator.
\<close>

definition releaseFling :: "event \<Rightarrow> state \<Rightarrow> state" where
  "releaseFling ev s =
     (let s1 = s\<lparr> lastEnd := timeStamp ev \<rparr>;
          time = (lastEnd s1 - lastStart s1) * (8 / 1000);
          x = (if lastDeltaX s1 \<noteq> 0 then js_divide (Fin (lastDeltaX s1)) (Fin time) else Fin 0);
          y = (if lastDeltaY s1 \<noteq> 0 then js_divide (Fin (lastDeltaY s1)) (Fin time) else Fin 0);
          s2 = smoothScrollBy (element s1) x y (js_divide (Fin 20) (Fin time)) s1
      in s2\<lparr> lastDeltaX := 0, lastDeltaY := 0 \<rparr>)"

text \<open>
  The end of \<^verbatim>\<open>onEnd\<close>: a pending settle timeout is cleared, the flag is reset and a new
  settle timeout is set.
\<close>

definition scheduleStop :: "state \<Rightarrow> state" where
  "scheduleStop s =
     (let s1 = (case stopTimeout s of None \<Rightarrow> s | Some h \<Rightarrow> clearTimer h s);
          s2 = s1\<lparr> scrolling := False \<rparr>;
          h = nextTimer s2
      in s2\<lparr> timers := (timers s2)(h \<mapsto> Timeout),
             nextTimer := h + 1,
             stopTimeout := Some h \<rparr>)"

definition onEnd :: "config \<Rightarrow> event \<Rightarrow> state \<Rightarrow> state" where
  "onEnd cfg ev s =
     (let s1 = removeMoveEvent s in
      if totalDelta s1 < minimum cfg then s1\<lparr> element := None, scrolling := False \<rparr>
      else
        (let s2 = s1\<lparr> defaultPrevented := True \<rparr>;
             s3 = (if continuousMode cfg then releaseFling ev s2 else s2)
         in scheduleStop s3))"

text \<open>The callback of the settle timeout that \<^verbatim>\<open>onEnd\<close> sets.\<close>

definition stopCallback :: "state \<Rightarrow> state" where
  "stopCallback s =
     (let s1 = (case stopTimeout s of None \<Rightarrow> s | Some h \<Rightarrow> clearTimer h s) in
      s1\<lparr> element := None, scrolling := False \<rparr>)"

subsection \<open>The event loop\<close>

text \<open>
  What can happen to a controller: the browser delivers a start, a move or an end event,
  or a live timer fires. A move event is delivered to every registered move listener in
  turn, and each of them runs \<^verbatim>\<open>onMove\<close>. A timeout that fires is spent; an interval
  stays until it is cleared. Firing a handle that is not live does nothing.
\<close>

datatype action = Start event | Move event | End event | Fire nat

definition dispatchMove :: "config \<Rightarrow> event \<Rightarrow> state \<Rightarrow> state" where
  "dispatchMove cfg ev s = fold (\<lambda>l. onMove cfg ev) (moveListeners s) s"

definition fire :: "config \<Rightarrow> nat \<Rightarrow> state \<Rightarrow> state" where
  "fire cfg h s =
     (case timers s h of
        None \<Rightarrow> s
      | Some Timeout \<Rightarrow> stopCallback (clearTimer h s)
      | Some (Interval f) \<Rightarrow> tick cfg h f s)"

fun step :: "config \<Rightarrow> dom \<Rightarrow> state \<Rightarrow> action \<Rightarrow> state" where
  "step cfg d s (Start ev) = onStart cfg d ev (s\<lparr> defaultPrevented := False \<rparr>)"
| "step cfg d s (Move ev) = dispatchMove cfg ev (s\<lparr> defaultPrevented := False \<rparr>)"
| "step cfg d s (End ev) = onEnd cfg ev (s\<lparr> defaultPrevented := False \<rparr>)"
| "step cfg d s (Fire h) = fire cfg h s"

definition run :: "config \<Rightarrow> dom \<Rightarrow> state \<Rightarrow> action list \<Rightarrow> state" where
  "run cfg d s acts = foldl (step cfg d) s acts"

section \<open>Ancestors\<close>

text \<open>
  The ancestor of an element \<open>k\<close> hops up the chain of parent elements, the element
  itself being 0 hops away.
\<close>

fun ancestor :: "dom \<Rightarrow> elem \<Rightarrow> nat \<Rightarrow> elem option" where
  "ancestor d e 0 = Some e"
| "ancestor d e (Suc k) = (case parentElement d e of None \<Rightarrow> None | Some p \<Rightarrow> ancestor d p k)"

text \<open>
  The element \<open>k\<close> hops above \<open>e\<close> is scrollable, and no element nearer to \<open>e\<close> is.
\<close>

definition firstMatch :: "config \<Rightarrow> dom \<Rightarrow> elem \<Rightarrow> nat \<Rightarrow> elem \<Rightarrow> bool" where
  "firstMatch cfg d e k a =
     (ancestor d e k = Some a \<and> isScrollable cfg d a
      \<and> (\<forall>j<k. \<exists>b. ancestor d e j = Some b \<and> \<not> isScrollable cfg d b))"

section \<open>Predicates on states\<close>

text \<open>The handles of the fling intervals that are live in a state.\<close>

fun isFling :: "timer option \<Rightarrow> bool" where
  "isFling (Some (Interval f)) = True"
| "isFling _ = False"

definition liveFlings :: "state \<Rightarrow> nat set" where
  "liveFlings s = {h. isFling (timers s h)}"

text \<open>Every live fling interval is the one whose handle \<^verbatim>\<open>scrollInterval\<close> holds.\<close>

definition singleFlight :: "state \<Rightarrow> bool" where
  "singleFlight s = (liveFlings s \<subseteq> set_option (scrollInterval s))"

text \<open>
  Every handle that the instance holds, and every live timer, was handed out before:
  the next handle is a new one.
\<close>

definition handlesFresh :: "state \<Rightarrow> bool" where
  "handlesFresh s =
     (\<forall>h. (stopTimeout s = Some h \<or> scrollInterval s = Some h \<or> timers s h \<noteq> None)
          \<longrightarrow> h < nextTimer s)"

text \<open>The handle in \<^verbatim>\<open>scrollInterval\<close> is not the handle of a timeout.\<close>

definition intervalHandle :: "state \<Rightarrow> bool" where
  "intervalHandle s = (\<forall>h. scrollInterval s = Some h \<longrightarrow> timers s h \<noteq> Some Timeout)"

text \<open>Every registered move listener is a function object that was created before.\<close>

definition listenersKnown :: "state \<Rightarrow> bool" where
  "listenersKnown s = list_all (\<lambda>l. l < nextFunction s) (moveListeners s)"

text \<open>The closure of a fling after one run of its callback.\<close>

definition tickedFling :: "config \<Rightarrow> fling \<Rightarrow> fling" where
  "tickedFling cfg f =
     f\<lparr> fl_x := (if js_abs_gt_1 (fl_x f) \<and> touchType cfg \<noteq> VERTICAL
                  then js_minus (fl_x f) (js_divide (fl_x f) (fl_time f)) else fl_x f),
        fl_y := (if js_abs_gt_1 (fl_y f) \<and> touchType cfg \<noteq> HORIZONTAL
                  then js_minus (fl_y f) (js_divide (fl_y f) (fl_time f)) else fl_y f),
        fl_count := fl_count f + 1 \<rparr>"

text \<open>
  The timer of handle \<open>h\<close> is gone, or it is a fling whose remaining horizontal delta does
  not exceed 1 in magnitude.
\<close>

definition restsX :: "nat \<Rightarrow> state \<Rightarrow> bool" where
  "restsX h s =
     (case timers s h of
        Some (Interval f) \<Rightarrow> \<not> js_abs_gt_1 (fl_x f)
      | Some Timeout \<Rightarrow> False
      | None \<Rightarrow> True)"

text \<open>The same for the vertical axis.\<close>

definition restsY :: "nat \<Rightarrow> state \<Rightarrow> bool" where
  "restsY h s =
     (case timers s h of
        Some (Interval f) \<Rightarrow> \<not> js_abs_gt_1 (fl_y f)
      | Some Timeout \<Rightarrow> False
      | None \<Rightarrow> True)"

text \<open>
  What holds while a drag is tracked, \<open>T\<close> being the timestamp of the latest event: an
  element is set and a move listener is registered; in continuous mode the timing window
  did not start after \<open>T\<close>; and the accumulator is empty as long as the distance has not
  exceeded the minimum, and always outside continuous mode.
\<close>

definition dragInv :: "config \<Rightarrow> real \<Rightarrow> state \<Rightarrow> bool" where
  "dragInv cfg T s =
     (element s \<noteq> None \<and> moveListeners s \<noteq> []
      \<and> (continuousMode cfg \<longrightarrow> lastStart s \<le> T)
      \<and> (\<not> continuousMode cfg \<or> totalDelta s \<le> minimum cfg
           \<longrightarrow> lastDeltaX s = 0 \<and> lastDeltaY s = 0))"


text \<open>
  A drag ends with its end event; what happens from then until the next start event
  belongs to no drag.
\<close>

fun isStart :: "action \<Rightarrow> bool" where
  "isStart (Start ev) = True"
| "isStart _ = False"

section \<open>The readings of the specification\<close>

text \<open>
  The specification says that a tick applies the remaining delta divided by the number of
  steps not yet taken, that is, by the step budget minus the ticks counted so far.
\<close>

definition stepsLeft :: "fling \<Rightarrow> jsnum" where
  "stepsLeft f = js_minus (fl_time f) (Fin (real (fl_count f)))"

definition remainingOverStepsLeft :: "fling \<Rightarrow> jsnum" where
  "remainingOverStepsLeft f = js_divide (fl_x f) (stepsLeft f)"

text \<open>
  The specification also describes the controller as a state machine: idle, tracking,
  coasting, idle. The source has no such variable; the phase is computed here beside the
  state of the source, following the transitions as the specification words them.
\<close>

datatype phase = Idle | Tracking | Coasting

text \<open>The fling interval that \<^verbatim>\<open>scrollInterval\<close> holds is live.\<close>

definition flingRunning :: "state \<Rightarrow> bool" where
  "flingRunning s = (case scrollInterval s of None \<Rightarrow> False | Some h \<Rightarrow> isFling (timers s h))"

text \<open>The settle timeout that \<^verbatim>\<open>stopTimeout\<close> holds has not fired and was not cleared.\<close>

definition settlePending :: "state \<Rightarrow> bool" where
  "settlePending s = (case stopTimeout s of None \<Rightarrow> False | Some h \<Rightarrow> timers s h = Some Timeout)"

text \<open>
  The transitions: a start event that finds a scrollable element begins tracking, one that
  finds none changes nothing; an end event while tracking leads to idle when the distance
  is below the minimum, to coasting in continuous mode, to idle otherwise; coasting ends
  when the fling animator completes.
\<close>

fun specPhase :: "config \<Rightarrow> dom \<Rightarrow> state \<Rightarrow> action \<Rightarrow> phase \<Rightarrow> phase" where
  "specPhase cfg d s (Start ev) ph =
     (if findScrollable cfg d (target ev) 0 \<noteq> None then Tracking else ph)"
| "specPhase cfg d s (Move ev) ph = ph"
| "specPhase cfg d s (End ev) ph =
     (if ph = Tracking then
        (if totalDelta s < minimum cfg then Idle
         else if continuousMode cfg then Coasting
         else Idle)
      else ph)"
| "specPhase cfg d s (Fire h) ph =
     (if ph = Coasting \<and> \<not> flingRunning (step cfg d s (Fire h)) then Idle else ph)"

text \<open>A run of the controller with the phase of the specification beside it.\<close>

definition runPhase :: "config \<Rightarrow> dom \<Rightarrow> state \<times> phase \<Rightarrow> action list \<Rightarrow> state \<times> phase" where
  "runPhase cfg d sp acts =
     foldl (\<lambda>sp a. (step cfg d (fst sp) a, specPhase cfg d (fst sp) a (snd sp))) sp acts"

text \<open>The invariant as the specification states it.\<close>

definition specElementInvariant :: "state \<times> phase \<Rightarrow> bool" where
  "specElementInvariant sp =
     (element (fst sp) \<noteq> None \<longleftrightarrow> snd sp = Tracking \<or> snd sp = Coasting)"

text \<open>
  What the source maintains instead: an element is set only while tracking or while the
  settle timeout is pending. The invariant that carries it through a run adds the two
  facts about handles.
\<close>

definition elementPhase :: "state \<times> phase \<Rightarrow> bool" where
  "elementPhase sp = (element (fst sp) \<noteq> None \<longrightarrow> snd sp = Tracking \<or> settlePending (fst sp))"

definition phaseInv :: "state \<times> phase \<Rightarrow> bool" where
  "phaseInv sp = (handlesFresh (fst sp) \<and> intervalHandle (fst sp) \<and> elementPhase sp)"

section \<open>Concrete documents, configurations and runs\<close>

text \<open>The controller built by \<^verbatim>\<open>new TouchScreen()\<close> on a device without touch support.\<close>

definition defaultConfig :: config where
  "defaultConfig = newConfig Undefined None None None None None None False"

text \<open>The same controller restricted to the horizontal axis, and to the vertical one.\<close>

definition horizontalConfig :: config where
  "horizontalConfig = newConfig Undefined (Some HORIZONTAL) None None None None None False"

definition verticalConfig :: config where
  "verticalConfig = newConfig Undefined (Some VERTICAL) None None None None None False"

text \<open>The default controller with a minimum distance of -1.\<close>

definition negativeMinimumConfig :: config where
  "negativeMinimumConfig = newConfig Undefined None None (Some (- 1)) None None None False"

text \<open>
  A chain of \<open>n\<close> nested HTML elements: element 0 is the innermost one, the parent of
  element \<open>e\<close> is element \<open>e + 1\<close>, the outermost one has no parent element. Only
  element \<open>k\<close> carries the attribute \<^verbatim>\<open>tss\<close>.
\<close>

definition chainDom :: "nat \<Rightarrow> nat \<Rightarrow> dom" where
  "chainDom n k =
     \<lparr> isHTMLElement = (\<lambda>e. True),
       parentElement = (\<lambda>e. if e + 1 < n then Some (e + 1) else None),
       hasAttribute = (\<lambda>e a. e = k \<and> a = ''tss''),
       classList = (\<lambda>e. []), elemId = (\<lambda>e. []),
       overflowX = (\<lambda>e. ''visible''), overflowY = (\<lambda>e. ''visible''),
       scrollWidth = (\<lambda>e. 0), clientWidth = (\<lambda>e. 0),
       scrollHeight = (\<lambda>e. 0), clientHeight = (\<lambda>e. 0) \<rparr>"

text \<open>
  A document whose node 0 is an element but not an HTML element (an SVG element, say),
  with a computed style and extents that would make an HTML element scrollable on both
  axes.
\<close>

definition svgDom :: dom where
  "svgDom =
     \<lparr> isHTMLElement = (\<lambda>e. e \<noteq> 0),
       parentElement = (\<lambda>e. None),
       hasAttribute = (\<lambda>e a. False),
       classList = (\<lambda>e. []), elemId = (\<lambda>e. []),
       overflowX = (\<lambda>e. ''auto''), overflowY = (\<lambda>e. ''scroll''),
       scrollWidth = (\<lambda>e. 500), clientWidth = (\<lambda>e. 300),
       scrollHeight = (\<lambda>e. 500), clientHeight = (\<lambda>e. 300) \<rparr>"

definition mkEvent :: "real \<Rightarrow> elem \<Rightarrow> real \<Rightarrow> real \<Rightarrow> event" where
  "mkEvent t tg x y = \<lparr> timeStamp = t, target = Some tg, clientX = x, clientY = y \<rparr>"

text \<open>A page on which nothing has been scrolled yet.\<close>

definition freshState :: state where
  "freshState = newState (\<lambda>e. 0) (\<lambda>e. 0)"

text \<open>A tap: the pointer goes down on a scrollable element and up again without moving.\<close>

definition tap :: "action list" where
  "tap = [Start (mkEvent 0 0 100 100), End (mkEvent 80 0 100 100)]"

text \<open>A drag of 5 pixels on each axis in one move, then the release.\<close>

definition shortDrag :: "action list" where
  "shortDrag =
     [Start (mkEvent 0 0 100 100), Move (mkEvent 50 0 95 95), End (mkEvent 100 0 95 95)]"

text \<open>
  A drag of exactly 25 pixels, the default minimum, in one move, then the release.
\<close>

definition boundaryDrag :: "action list" where
  "boundaryDrag =
     [Start (mkEvent 0 0 100 100), Move (mkEvent 50 0 75 100), End (mkEvent 100 0 75 100)]"

text \<open>
  A drag of 100 pixels to the left in one move, released 250 ms after the start: the
  accumulated horizontal delta is 100 and the timing window is 250 ms. The settle timeout
  (handle 2) fires after the release; the fling has handle 1.
\<close>

definition flingDrag :: "action list" where
  "flingDrag =
     [Start (mkEvent 0 0 200 100), Move (mkEvent 50 0 100 100), End (mkEvent 250 0 100 100),
      Fire 2]"

text \<open>
  The drag \<open>flingDrag\<close> with one more move event half a millisecond after the end event,
  before the settle timeout fires.
\<close>

definition settleMoveDrag :: "action list" where
  "settleMoveDrag =
     [Start (mkEvent 0 0 200 100), Move (mkEvent 50 0 100 100), End (mkEvent 250 0 100 100),
      Move (mkEvent (501 / 2) 0 90 100), Fire 2]"

text \<open>
  A drag of 100 pixels that no end event closes, then a second start event and a drag of
  10 pixels with its release.
\<close>

definition staleFlagDrag :: "action list" where
  "staleFlagDrag =
     [Start (mkEvent 0 0 200 100), Move (mkEvent 50 0 100 100),
      Start (mkEvent 100 0 100 100), Move (mkEvent 150 0 95 95), End (mkEvent 200 0 95 95)]"



text \<open>
  A diagonal drag of 30 and 40 pixels on a scrollable element, released after 250 ms, then
  the settle timeout (handle 2) and two ticks of the fling (handle 1).
\<close>

definition diagonalDrag :: "action list" where
  "diagonalDrag =
     [Start (mkEvent 0 0 100 100), Move (mkEvent 50 0 70 60), End (mkEvent 250 0 70 60),
      Fire 2, Fire 1, Fire 1]"

text \<open>
  Two drags in a row, each long enough to end in a fling. After the first release the
  settle timeout (handle 2) fires and the fling (handle 1, a budget of 25 ticks) ticks
  once; the second drag is released while that fling is still live.
\<close>

definition twoDrags :: "action list" where
  "twoDrags =
     [Start (mkEvent 0 0 100 100), Move (mkEvent 50 0 70 100), End (mkEvent 100 0 70 100),
      Fire 2, Fire 1,
      Start (mkEvent 115 0 100 100), Move (mkEvent 150 0 60 100), End (mkEvent 200 0 60 100)]"

section \<open>Properties\<close>

subsection \<open>getScrollability\<close>

text \<open>
  Claim C10. For an argument that is not an HTML element, \<^verbatim>\<open>getScrollability\<close> returns
  the pair (x: false, y: false), whatever the computed style and the extents of the node
  are: they are not consulted, and the call does not fail.
\<close>

theorem getScrollability_not_HTMLElement:
  assumes "\<not> isHTMLElement d e"
  shows "getScrollability
           (d\<lparr> overflowX := ox, overflowY := oy, scrollWidth := sw, clientWidth := cw,
               scrollHeight := sh, clientHeight := ch \<rparr>) e
         = \<lparr> sx = False, sy = False \<rparr>"
  using assms unfolding getScrollability_def by simp

theorem getScrollability_not_HTMLElement_witness:
  "\<not> isHTMLElement svgDom 0
   \<and> overflowAllows (overflowX svgDom 0) \<and> clientWidth svgDom 0 + 1 < scrollWidth svgDom 0
   \<and> getScrollability svgDom 0 = \<lparr> sx = False, sy = False \<rparr>
   \<and> getScrollability (svgDom\<lparr> isHTMLElement := (\<lambda>e. True) \<rparr>) 0 = \<lparr> sx = True, sy = True \<rparr>"
proof -
  have nh: "\<not> isHTMLElement svgDom 0"
    by (simp add: svgDom_def)
  have "getScrollability
          (svgDom\<lparr> overflowX := overflowX svgDom, overflowY := overflowY svgDom,
             scrollWidth := scrollWidth svgDom, clientWidth := clientWidth svgDom,
             scrollHeight := scrollHeight svgDom, clientHeight := clientHeight svgDom \<rparr>) 0
        = \<lparr> sx = False, sy = False \<rparr>"
    by (rule getScrollability_not_HTMLElement [OF nh])
  then have "getScrollability svgDom 0 = \<lparr> sx = False, sy = False \<rparr>"
    by simp
  moreover have "getScrollability (svgDom\<lparr> isHTMLElement := (\<lambda>e. True) \<rparr>) 0
      = \<lparr> sx = True, sy = True \<rparr>"
    by (simp add: getScrollability_def svgDom_def overflowAllows_def)
  moreover have "overflowAllows (overflowX svgDom 0)"
    by (simp add: svgDom_def overflowAllows_def)
  moreover have "clientWidth svgDom 0 + 1 < scrollWidth svgDom 0"
    by (simp add: svgDom_def)
  ultimately show ?thesis using nh by simp
qed

subsection \<open>findScrollable\<close>

lemma firstMatch_0: "firstMatch cfg d e 0 a \<longleftrightarrow> a = e \<and> isScrollable cfg d e"
  by (auto simp: firstMatch_def)

lemma firstMatch_scrollable: "isScrollable cfg d e \<Longrightarrow> firstMatch cfg d e k a \<longleftrightarrow> k = 0 \<and> a = e"
  by (cases k) (auto simp: firstMatch_def)

lemma firstMatch_Suc:
  "\<not> isScrollable cfg d e \<Longrightarrow>
   firstMatch cfg d e (Suc k) a \<longleftrightarrow> (\<exists>p. parentElement d e = Some p \<and> firstMatch cfg d p k a)"
proof (cases "parentElement d e")
  case None
  then show ?thesis by (simp add: firstMatch_def)
next
  case (Some p)
  assume ns: "\<not> isScrollable cfg d e"
  have "(\<forall>j<Suc k. \<exists>b. ancestor d e j = Some b \<and> \<not> isScrollable cfg d b)
      \<longleftrightarrow> (\<forall>j<k. \<exists>b. ancestor d p j = Some b \<and> \<not> isScrollable cfg d b)"
    using ns Some by (auto simp: less_Suc_eq_0_disj)
  then show ?thesis using Some by (simp add: firstMatch_def)
qed

text \<open>
  What the search returns: the nearest scrollable ancestor, the start counting as its own
  ancestor, provided it is no more than \<^verbatim>\<open>iterationLimit\<close> + 1 hops away when the search
  starts at iteration 0.
\<close>

lemma findScrollable_hops:
  "findScrollable cfg d (Some e) i = Some a \<longleftrightarrow>
     (\<exists>k. firstMatch cfg d e k a \<and> (k = 0 \<or> real (i + k) \<le> iterationLimit cfg + 1))"
proof (induction cfg d "Some e" i arbitrary: e rule: findScrollable.induct)
  case (2 cfg d e i)
  show ?case
  proof (cases "isScrollable cfg d e")
    case True
    then show ?thesis by (auto simp: firstMatch_scrollable)
  next
    case ns: False
    show ?thesis
    proof (cases "iterationLimit cfg < real i")
      case True
      have "\<not> (firstMatch cfg d e k a \<and> (k = 0 \<or> real (i + k) \<le> iterationLimit cfg + 1))" for k
        using ns True by (cases k) (auto simp: firstMatch_0)
      then show ?thesis using ns True by simp
    next
      case lim: False
      show ?thesis
      proof (cases "parentElement d e")
        case None
        have "\<not> firstMatch cfg d e k a" for k
          using ns None by (cases k) (auto simp: firstMatch_0 firstMatch_Suc)
        then show ?thesis using ns lim None by simp
      next
        case (Some p)
        have ih: "findScrollable cfg d (Some p) (i + 1) = Some a \<longleftrightarrow>
            (\<exists>k. firstMatch cfg d p k a \<and> (k = 0 \<or> real (i + 1 + k) \<le> iterationLimit cfg + 1))"
          using "2.hyps" [OF ns lim Some] .
        have "(\<exists>k. firstMatch cfg d e k a \<and> (k = 0 \<or> real (i + k) \<le> iterationLimit cfg + 1))
            \<longleftrightarrow> (\<exists>k. firstMatch cfg d p k a \<and> (k = 0 \<or> real (i + 1 + k) \<le> iterationLimit cfg + 1))"
        proof
          assume "\<exists>k. firstMatch cfg d e k a \<and> (k = 0 \<or> real (i + k) \<le> iterationLimit cfg + 1)"
          then obtain k where k: "firstMatch cfg d e k a"
            "k = 0 \<or> real (i + k) \<le> iterationLimit cfg + 1" by blast
          then obtain k' where k': "k = Suc k'"
            using ns by (cases k) (auto simp: firstMatch_0)
          then have "firstMatch cfg d p k' a"
            using k(1) ns Some by (simp add: firstMatch_Suc)
          moreover have "real (i + 1 + k') \<le> iterationLimit cfg + 1"
            using k(2) k' by simp
          ultimately show "\<exists>k. firstMatch cfg d p k a
              \<and> (k = 0 \<or> real (i + 1 + k) \<le> iterationLimit cfg + 1)"
            by blast
        next
          assume "\<exists>k. firstMatch cfg d p k a \<and> (k = 0 \<or> real (i + 1 + k) \<le> iterationLimit cfg + 1)"
          then obtain k where k: "firstMatch cfg d p k a"
            "k = 0 \<or> real (i + 1 + k) \<le> iterationLimit cfg + 1" by blast
          have "firstMatch cfg d e (Suc k) a"
            using k(1) ns Some by (simp add: firstMatch_Suc)
          moreover have "real (i + Suc k) \<le> iterationLimit cfg + 1"
            using k(2) lim by auto
          ultimately show "\<exists>k. firstMatch cfg d e k a
              \<and> (k = 0 \<or> real (i + k) \<le> iterationLimit cfg + 1)"
            by blast
        qed
        then show ?thesis using ns lim Some ih by simp
      qed
    qed
  qed
qed

text \<open>
  The scenario of the specification: in a chain of 60 elements of which only the outermost
  one matches, the search with the limit 50 finds nothing.
\<close>

lemma findScrollable_outermost_of_60:
  "findScrollable defaultConfig (chainDom 60 59) (Some 0) 0 = None"
  by code_simp

text \<open>
  Claim C2. \<^verbatim>\<open>findScrollable( start, 0 )\<close> should return none when no element within
  \<^verbatim>\<open>iterationLimit\<close> hops of the start satisfies \<^verbatim>\<open>isScrollable\<close>. The source tests
  \<^verbatim>\<open>isScrollable\<close> before it tests the limit, and the limit test is
  \<^verbatim>\<open>iteration > iterationLimit\<close>: with the limit 50, the element 51 hops away from the
  start is still examined. In a chain of 60 elements of which only the one at hop 51
  matches, none of the elements at hops 0 to 50 is scrollable, and the search returns
  the element at hop 51.
\<close>

theorem findScrollable_examines_past_limit:
  "filter (isScrollable defaultConfig (chainDom 60 51)) [0..<51] = []
   \<and> iterationLimit defaultConfig = 50
   \<and> findScrollable defaultConfig (chainDom 60 51) (Some 0) 0 = Some 51"
proof -
  have "filter (isScrollable defaultConfig (chainDom 60 51)) [0..<51] = []"
    by (simp add: filter_empty_conv isScrollable_def defaultConfig_def newConfig_def
        selectorOf_def chainDom_def)
  moreover have "iterationLimit defaultConfig = 50"
    by (simp add: defaultConfig_def newConfig_def)
  moreover have "findScrollable defaultConfig (chainDom 60 51) (Some 0) 0 = Some 51"
    by code_simp
  ultimately show ?thesis by simp
qed

subsection \<open>Which offsets the handlers write\<close>

lemma scrollBy_frame:
  "touchType cfg = HORIZONTAL \<Longrightarrow> scrollTop (scrollBy cfg x y s) = scrollTop s"
  "touchType cfg = VERTICAL \<Longrightarrow> scrollLeft (scrollBy cfg x y s) = scrollLeft s"
  by (simp_all add: scrollBy_def split: option.split)

lemma onMove_frame:
  "touchType cfg = HORIZONTAL \<Longrightarrow> scrollTop (onMove cfg ev s) = scrollTop s"
  "touchType cfg = VERTICAL \<Longrightarrow> scrollLeft (onMove cfg ev s) = scrollLeft s"
  by (simp_all add: onMove_def Let_def scrollBy_frame)

lemma fold_onMove_frame:
  "touchType cfg = HORIZONTAL \<Longrightarrow> scrollTop (fold (\<lambda>l. onMove cfg ev) ls s) = scrollTop s"
  "touchType cfg = VERTICAL \<Longrightarrow> scrollLeft (fold (\<lambda>l. onMove cfg ev) ls s) = scrollLeft s"
  by (induction ls arbitrary: s) (simp_all add: onMove_frame)

lemma dispatchMove_frame:
  "touchType cfg = HORIZONTAL \<Longrightarrow> scrollTop (dispatchMove cfg ev s) = scrollTop s"
  "touchType cfg = VERTICAL \<Longrightarrow> scrollLeft (dispatchMove cfg ev s) = scrollLeft s"
  by (simp_all add: dispatchMove_def fold_onMove_frame)

lemma onStart_offsets:
  "scrollTop (onStart cfg d ev s) = scrollTop s"
  "scrollLeft (onStart cfg d ev s) = scrollLeft s"
  by (simp_all add: onStart_def Let_def addMoveEvent_def)

lemma clearTimer_offsets:
  "scrollTop (clearTimer h s) = scrollTop s"
  "scrollLeft (clearTimer h s) = scrollLeft s"
  by (simp_all add: clearTimer_def)

lemma smoothScrollBy_offsets:
  "scrollTop (smoothScrollBy el x y t s) = scrollTop s"
  "scrollLeft (smoothScrollBy el x y t s) = scrollLeft s"
  by (simp_all add: smoothScrollBy_def Let_def clearTimer_def split: option.split)

lemma releaseFling_offsets:
  "scrollTop (releaseFling ev s) = scrollTop s"
  "scrollLeft (releaseFling ev s) = scrollLeft s"
  by (simp_all add: releaseFling_def Let_def smoothScrollBy_offsets)

lemma removeMoveEvent_offsets:
  "scrollTop (removeMoveEvent s) = scrollTop s"
  "scrollLeft (removeMoveEvent s) = scrollLeft s"
  by (simp_all add: removeMoveEvent_def)

lemma scheduleStop_offsets:
  "scrollTop (scheduleStop s) = scrollTop s"
  "scrollLeft (scheduleStop s) = scrollLeft s"
  by (simp_all add: scheduleStop_def Let_def clearTimer_offsets split: option.split)

lemma onEnd_offsets:
  "scrollTop (onEnd cfg ev s) = scrollTop s"
  "scrollLeft (onEnd cfg ev s) = scrollLeft s"
  by (simp_all add: onEnd_def Let_def removeMoveEvent_offsets releaseFling_offsets
      scheduleStop_offsets)

lemma stopCallback_offsets:
  "scrollTop (stopCallback s) = scrollTop s"
  "scrollLeft (stopCallback s) = scrollLeft s"
  by (simp_all add: stopCallback_def Let_def clearTimer_def split: option.split)

lemma clearScrollInterval_offsets:
  "scrollTop (clearScrollInterval s) = scrollTop s"
  "scrollLeft (clearScrollInterval s) = scrollLeft s"
  by (simp_all add: clearScrollInterval_def clearTimer_def split: option.split)

lemma tickX_frame:
  "scrollTop (snd (tickX cfg el fs)) = scrollTop (snd fs)"
  "touchType cfg = VERTICAL \<Longrightarrow> tickX cfg el fs = fs"
  by (simp_all add: tickX_def Let_def)

lemma tickY_frame:
  "scrollLeft (snd (tickY cfg el fs)) = scrollLeft (snd fs)"
  "touchType cfg = HORIZONTAL \<Longrightarrow> tickY cfg el fs = fs"
  by (simp_all add: tickY_def Let_def)

lemma tick_frame:
  "touchType cfg = HORIZONTAL \<Longrightarrow> scrollTop (tick cfg h f s) = scrollTop s"
  "touchType cfg = VERTICAL \<Longrightarrow> scrollLeft (tick cfg h f s) = scrollLeft s"
  by (simp_all add: tick_def Let_def clearScrollInterval_offsets tickX_frame tickY_frame
      split: option.split)

lemma fire_frame:
  "touchType cfg = HORIZONTAL \<Longrightarrow> scrollTop (fire cfg h s) = scrollTop s"
  "touchType cfg = VERTICAL \<Longrightarrow> scrollLeft (fire cfg h s) = scrollLeft s"
  by (simp_all add: fire_def tick_frame stopCallback_offsets clearTimer_offsets
      split: option.split timer.split)

lemma step_frame_horizontal:
  assumes "touchType cfg = HORIZONTAL"
  shows "scrollTop (step cfg d s a) = scrollTop s"
proof (cases a)
  case (Move ev)
  then show ?thesis using assms by (simp add: dispatchMove_frame)
next
  case (Fire h)
  then show ?thesis using assms by (simp add: fire_frame)
qed (simp_all add: onStart_offsets onEnd_offsets)

lemma step_frame_vertical:
  assumes "touchType cfg = VERTICAL"
  shows "scrollLeft (step cfg d s a) = scrollLeft s"
proof (cases a)
  case (Move ev)
  then show ?thesis using assms by (simp add: dispatchMove_frame)
next
  case (Fire h)
  then show ?thesis using assms by (simp add: fire_frame)
qed (simp_all add: onStart_offsets onEnd_offsets)

text \<open>
  Claim C7. With the horizontal axis mode no sequence of start, move and end events and
  of timer firings (the ticks of a fling among them) changes the vertical scroll offset
  of any element; with the vertical axis mode none changes a horizontal offset.
\<close>

theorem axis_mode_frame:
  "(touchType cfg = HORIZONTAL \<longrightarrow> scrollTop (run cfg d s acts) = scrollTop s)
   \<and> (touchType cfg = VERTICAL \<longrightarrow> scrollLeft (run cfg d s acts) = scrollLeft s)"
  unfolding run_def
proof (induction acts arbitrary: s)
  case Nil
  show ?case by simp
next
  case (Cons a acts)
  show ?case
    using Cons.IH [of "step cfg d s a"]
    by (simp add: step_frame_horizontal step_frame_vertical)
qed

text \<open>
  The diagonal drag under both restricted configurations: the permitted axis moves (by the
  drag and by two ticks of the fling), the other one stays where it was.
\<close>

theorem axis_mode_frame_witness:
  "touchType horizontalConfig = HORIZONTAL
   \<and> scrollTop (run horizontalConfig (chainDom 3 0) freshState diagonalDrag) = scrollTop freshState
   \<and> scrollLeft (run horizontalConfig (chainDom 3 0) freshState diagonalDrag) 0 = 657 / 20
   \<and> touchType verticalConfig = VERTICAL
   \<and> scrollLeft (run verticalConfig (chainDom 3 0) freshState diagonalDrag) = scrollLeft freshState
   \<and> scrollTop (run verticalConfig (chainDom 3 0) freshState diagonalDrag) 0 = 219 / 5"
proof -
  have h: "touchType horizontalConfig = HORIZONTAL"
    by (simp add: horizontalConfig_def newConfig_def)
  have v: "touchType verticalConfig = VERTICAL"
    by (simp add: verticalConfig_def newConfig_def)
  have "scrollLeft (run horizontalConfig (chainDom 3 0) freshState diagonalDrag) 0 = 657 / 20"
    by code_simp
  moreover
  have "scrollTop (run verticalConfig (chainDom 3 0) freshState diagonalDrag) 0 = 219 / 5"
    by code_simp
  ultimately show ?thesis
    using h v
      axis_mode_frame [of horizontalConfig "chainDom 3 0" freshState diagonalDrag]
      axis_mode_frame [of verticalConfig "chainDom 3 0" freshState diagonalDrag]
    by simp
qed

subsection \<open>A single fling at a time\<close>

lemma isFling_iff: "isFling t \<longleftrightarrow> (\<exists>f. t = Some (Interval f))"
  by (cases t rule: isFling.cases) simp_all

lemma singleFlight_iff:
  "singleFlight s \<longleftrightarrow> (\<forall>h. isFling (timers s h) \<longrightarrow> scrollInterval s = Some h)"
  by (cases "scrollInterval s") (auto simp: singleFlight_def liveFlings_def)

lemma singleFlight_same:
  "singleFlight s \<Longrightarrow> timers s' = timers s \<Longrightarrow> scrollInterval s' = scrollInterval s \<Longrightarrow>
   singleFlight s'"
  by (simp add: singleFlight_iff)

lemma singleFlight_clearTimer: "singleFlight s \<Longrightarrow> singleFlight (clearTimer h s)"
  by (simp add: singleFlight_iff clearTimer_def)

lemma liveFlings_smoothScrollBy:
  "singleFlight s \<Longrightarrow> liveFlings (smoothScrollBy el x y t s) = {nextTimer s}"
  by (cases "scrollInterval s")
     (auto simp: singleFlight_iff liveFlings_def smoothScrollBy_def clearTimer_def Let_def
           split: if_splits)

lemma scrollInterval_smoothScrollBy:
  "scrollInterval (smoothScrollBy el x y t s) = Some (nextTimer s)"
  by (simp add: smoothScrollBy_def Let_def clearTimer_def split: option.split)

lemma singleFlight_smoothScrollBy: "singleFlight s \<Longrightarrow> singleFlight (smoothScrollBy el x y t s)"
  by (simp add: singleFlight_def [of "smoothScrollBy el x y t s"] liveFlings_smoothScrollBy
      scrollInterval_smoothScrollBy)

lemma singleFlight_releaseFling: "singleFlight s \<Longrightarrow> singleFlight (releaseFling ev s)"
proof -
  assume a: "singleFlight s"
  let ?s1 = "s\<lparr> lastEnd := timeStamp ev \<rparr>"
  have "singleFlight ?s1" using a by (rule singleFlight_same) simp_all
  then have "singleFlight (smoothScrollBy el x y t ?s1)" for el x y t
    by (rule singleFlight_smoothScrollBy)
  then show ?thesis
    by (simp add: releaseFling_def Let_def singleFlight_iff)
qed

lemma onStart_timers:
  "timers (onStart cfg d ev s) = timers s" "scrollInterval (onStart cfg d ev s) = scrollInterval s"
  by (simp_all add: onStart_def Let_def addMoveEvent_def)

lemma scrollBy_timers:
  "timers (scrollBy cfg x y s) = timers s" "scrollInterval (scrollBy cfg x y s) = scrollInterval s"
  by (simp_all add: scrollBy_def split: option.split TouchTypes.split)

lemma onMove_timers:
  "timers (onMove cfg ev s) = timers s" "scrollInterval (onMove cfg ev s) = scrollInterval s"
  by (simp_all add: onMove_def Let_def scrollBy_timers)

lemma fold_onMove_timers:
  "timers (fold (\<lambda>l. onMove cfg ev) ls s) = timers s"
  "scrollInterval (fold (\<lambda>l. onMove cfg ev) ls s) = scrollInterval s"
  by (induction ls arbitrary: s) (simp_all add: onMove_timers)

lemma dispatchMove_timers:
  "timers (dispatchMove cfg ev s) = timers s"
  "scrollInterval (dispatchMove cfg ev s) = scrollInterval s"
  by (simp_all add: dispatchMove_def fold_onMove_timers)

lemma singleFlight_scheduleStop:
  assumes "singleFlight s"
  shows "singleFlight (scheduleStop s)"
proof -
  define s1 where "s1 = (case stopTimeout s of None \<Rightarrow> s | Some h \<Rightarrow> clearTimer h s)"
  have s1: "singleFlight s1"
    using assms by (cases "stopTimeout s") (simp_all add: s1_def singleFlight_clearTimer)
  have "scheduleStop s =
      s1\<lparr> scrolling := False, timers := (timers s1)(nextTimer s1 \<mapsto> Timeout),
           nextTimer := nextTimer s1 + 1, stopTimeout := Some (nextTimer s1) \<rparr>"
    unfolding scheduleStop_def s1_def [symmetric] by (simp add: Let_def)
  then show ?thesis
    using s1 by (simp add: singleFlight_iff)
qed

lemma singleFlight_onEnd:
  assumes "singleFlight s"
  shows "singleFlight (onEnd cfg ev s)"
proof -
  have s1: "singleFlight (removeMoveEvent s)"
    using assms by (rule singleFlight_same) (simp_all add: removeMoveEvent_def)
  then have tap: "singleFlight ((removeMoveEvent s)\<lparr> element := None, scrolling := False \<rparr>)"
    by (rule singleFlight_same) simp_all
  have s2: "singleFlight ((removeMoveEvent s)\<lparr> defaultPrevented := True \<rparr>)"
    using s1 by (rule singleFlight_same) simp_all
  show ?thesis
    unfolding onEnd_def Let_def
    using tap s2 by (simp add: singleFlight_scheduleStop singleFlight_releaseFling)
qed

lemma singleFlight_stopCallback: "singleFlight s \<Longrightarrow> singleFlight (stopCallback s)"
proof -
  assume a: "singleFlight s"
  let ?s1 = "case stopTimeout s of None \<Rightarrow> s | Some h \<Rightarrow> clearTimer h s"
  have "singleFlight ?s1"
    using a by (cases "stopTimeout s") (simp_all add: singleFlight_clearTimer)
  then show ?thesis
    by (simp add: stopCallback_def Let_def singleFlight_iff)
qed

lemma singleFlight_clearScrollInterval:
  "singleFlight s \<Longrightarrow> singleFlight (clearScrollInterval s)"
  by (simp add: clearScrollInterval_def singleFlight_clearTimer split: option.split)

lemma tickX_timers:
  "timers (snd (tickX cfg el fs)) = timers (snd fs)"
  "scrollInterval (snd (tickX cfg el fs)) = scrollInterval (snd fs)"
  by (simp_all add: tickX_def Let_def)

lemma tickY_timers:
  "timers (snd (tickY cfg el fs)) = timers (snd fs)"
  "scrollInterval (snd (tickY cfg el fs)) = scrollInterval (snd fs)"
  by (simp_all add: tickY_def Let_def)

lemma singleFlight_tick:
  assumes "singleFlight s" and "timers s h = Some (Interval f)"
  shows "singleFlight (tick cfg h f s)"
proof (cases "fl_element f")
  case None
  then show ?thesis using assms(1) by (simp add: tick_def singleFlight_clearScrollInterval)
next
  case (Some el)
  let ?fs = "tickY cfg el (tickX cfg el (f, s))"
  let ?f1 = "(fst ?fs)\<lparr> fl_count := fl_count (fst ?fs) + 1 \<rparr>"
  let ?s1 = "(snd ?fs)\<lparr> timers := (timers (snd ?fs))(h \<mapsto> Interval ?f1) \<rparr>"
  have t: "timers (snd ?fs) = timers s" "scrollInterval (snd ?fs) = scrollInterval s"
    by (simp_all add: tickY_timers tickX_timers)
  have "scrollInterval s = Some h"
    using assms by (simp add: singleFlight_iff)
  then have "singleFlight ?s1"
    using assms(1) t by (simp add: singleFlight_iff)
  then show ?thesis
    using Some by (simp add: tick_def Let_def singleFlight_clearScrollInterval)
qed

lemma singleFlight_fire: "singleFlight s \<Longrightarrow> singleFlight (fire cfg h s)"
  by (simp add: fire_def singleFlight_tick singleFlight_stopCallback singleFlight_clearTimer
      split: option.split timer.split)

lemma singleFlight_step:
  assumes "singleFlight s"
  shows "singleFlight (step cfg d s a)"
proof -
  have p: "singleFlight (s\<lparr> defaultPrevented := False \<rparr>)"
    using assms by (rule singleFlight_same) simp_all
  show ?thesis
  proof (cases a)
    case (Start ev)
    show ?thesis
      unfolding Start step.simps using p by (rule singleFlight_same) (simp_all add: onStart_timers)
  next
    case (Move ev)
    show ?thesis
      unfolding Move step.simps using p by (rule singleFlight_same) (simp_all add: dispatchMove_timers)
  next
    case (End ev)
    show ?thesis unfolding End step.simps using p by (rule singleFlight_onEnd)
  next
    case (Fire h)
    show ?thesis unfolding Fire step.simps using assms by (rule singleFlight_fire)
  qed
qed

lemma singleFlight_run: "singleFlight s \<Longrightarrow> singleFlight (run cfg d s acts)"
  unfolding run_def by (induction acts arbitrary: s) (simp_all add: singleFlight_step)

lemma singleFlight_newState: "singleFlight (newState l t)"
  by (simp add: singleFlight_iff newState_def)

text \<open>
  Claim C9. In every state that a controller reaches from its construction, the live fling
  intervals are among the one handle that \<^verbatim>\<open>scrollInterval\<close> holds, so there is at most
  one; and when \<^verbatim>\<open>smoothScrollBy\<close> starts a fling in such a state, the only live fling
  interval afterwards is the new one: the previous one is cleared first.
\<close>

theorem at_most_one_fling:
  "liveFlings (run cfg d (newState l t) acts) \<subseteq> set_option (scrollInterval (run cfg d (newState l t) acts))
   \<and> card (liveFlings (run cfg d (newState l t) acts)) \<le> 1
   \<and> liveFlings (smoothScrollBy el x y n (run cfg d (newState l t) acts))
       = {nextTimer (run cfg d (newState l t) acts)}"
proof -
  let ?s = "run cfg d (newState l t) acts"
  have sf: "singleFlight ?s"
    by (rule singleFlight_run [OF singleFlight_newState])
  then have sub: "liveFlings ?s \<subseteq> set_option (scrollInterval ?s)"
    by (simp add: singleFlight_def)
  have "card (set_option (scrollInterval ?s)) \<le> 1"
    by (cases "scrollInterval ?s") simp_all
  moreover have "finite (set_option (scrollInterval ?s))"
    by (cases "scrollInterval ?s") simp_all
  ultimately have "card (liveFlings ?s) \<le> 1"
    using sub card_mono [of "set_option (scrollInterval ?s)" "liveFlings ?s"] by linarith
  then show ?thesis
    using sub liveFlings_smoothScrollBy [OF sf] by simp
qed


theorem at_most_one_fling_witness:
  "timers (run defaultConfig (chainDom 3 0) freshState (take 3 twoDrags)) 1
     = Some (Interval \<lparr> fl_element = Some 0, fl_x = Fin (75 / 2), fl_y = Fin 0,
                          fl_time = Fin 25, fl_count = 0 \<rparr>)
   \<and> timers (run defaultConfig (chainDom 3 0) freshState twoDrags) 1 = None
   \<and> isFling (timers (run defaultConfig (chainDom 3 0) freshState twoDrags) 3)
   \<and> liveFlings (run defaultConfig (chainDom 3 0) freshState twoDrags) = {3}"
proof -
  let ?s = "run defaultConfig (chainDom 3 0) freshState twoDrags"
  have first: "timers (run defaultConfig (chainDom 3 0) freshState (take 3 twoDrags)) 1
     = Some (Interval \<lparr> fl_element = Some 0, fl_x = Fin (75 / 2), fl_y = Fin 0,
                          fl_time = Fin 25, fl_count = 0 \<rparr>)"
    by code_simp
  have gone: "timers ?s 1 = None"
    by code_simp
  have live: "isFling (timers ?s 3)"
    by code_simp
  have handle: "scrollInterval ?s = Some 3"
    by code_simp
  have "liveFlings ?s \<subseteq> {3}"
    using at_most_one_fling [of defaultConfig "chainDom 3 0" "\<lambda>e. 0" "\<lambda>e. 0" twoDrags,
        folded freshState_def]
    by (simp add: handle)
  moreover have "3 \<in> liveFlings ?s"
    using live by (simp add: liveFlings_def)
  ultimately have "liveFlings ?s = {3}" by blast
  then show ?thesis using first gone live by simp
qed

subsection \<open>Timer handles are fresh\<close>

lemma handlesFresh_same:
  "handlesFresh s \<Longrightarrow> timers s' = timers s \<Longrightarrow> scrollInterval s' = scrollInterval s \<Longrightarrow>
   stopTimeout s' = stopTimeout s \<Longrightarrow> nextTimer s' = nextTimer s \<Longrightarrow> handlesFresh s'"
  by (simp add: handlesFresh_def)

lemma handlesFresh_clearTimer: "handlesFresh s \<Longrightarrow> handlesFresh (clearTimer h s)"
  by (simp add: handlesFresh_def clearTimer_def)

lemma handlesFresh_smoothScrollBy:
  assumes "handlesFresh s"
  shows "handlesFresh (smoothScrollBy el x y t s)"
proof -
  define s1 where "s1 = (case scrollInterval s of None \<Rightarrow> s | Some h \<Rightarrow> clearTimer h s)"
  have s1: "handlesFresh s1"
    using assms by (cases "scrollInterval s") (simp_all add: s1_def handlesFresh_clearTimer)
  have "smoothScrollBy el x y t s =
      s1\<lparr> timers := (timers s1)(nextTimer s1 \<mapsto>
              Interval \<lparr> fl_element = el, fl_x = x, fl_y = y, fl_time = t, fl_count = 0 \<rparr>),
           nextTimer := nextTimer s1 + 1, scrollInterval := Some (nextTimer s1) \<rparr>"
    unfolding smoothScrollBy_def s1_def [symmetric] by (simp add: Let_def)
  then show ?thesis
    using s1 by (auto simp: handlesFresh_def less_Suc_eq)
qed

lemma handlesFresh_releaseFling: "handlesFresh s \<Longrightarrow> handlesFresh (releaseFling ev s)"
proof -
  assume a: "handlesFresh s"
  have "handlesFresh (s\<lparr> lastEnd := timeStamp ev \<rparr>)"
    using a by (rule handlesFresh_same) simp_all
  then have "handlesFresh (smoothScrollBy el x y t (s\<lparr> lastEnd := timeStamp ev \<rparr>))" for el x y t
    by (rule handlesFresh_smoothScrollBy)
  then show ?thesis
    by (simp add: releaseFling_def Let_def handlesFresh_def)
qed

lemma handlesFresh_scheduleStop:
  assumes "handlesFresh s"
  shows "handlesFresh (scheduleStop s)"
proof -
  define s1 where "s1 = (case stopTimeout s of None \<Rightarrow> s | Some h \<Rightarrow> clearTimer h s)"
  have s1: "handlesFresh s1"
    using assms by (cases "stopTimeout s") (simp_all add: s1_def handlesFresh_clearTimer)
  have "scheduleStop s =
      s1\<lparr> scrolling := False, timers := (timers s1)(nextTimer s1 \<mapsto> Timeout),
           nextTimer := nextTimer s1 + 1, stopTimeout := Some (nextTimer s1) \<rparr>"
    unfolding scheduleStop_def s1_def [symmetric] by (simp add: Let_def)
  then show ?thesis
    using s1 by (auto simp: handlesFresh_def less_Suc_eq)
qed

lemma handlesFresh_onEnd:
  assumes "handlesFresh s"
  shows "handlesFresh (onEnd cfg ev s)"
proof -
  have s1: "handlesFresh (removeMoveEvent s)"
    using assms by (rule handlesFresh_same) (simp_all add: removeMoveEvent_def)
  then have tap: "handlesFresh ((removeMoveEvent s)\<lparr> element := None, scrolling := False \<rparr>)"
    by (rule handlesFresh_same) simp_all
  have s2: "handlesFresh ((removeMoveEvent s)\<lparr> defaultPrevented := True \<rparr>)"
    using s1 by (rule handlesFresh_same) simp_all
  show ?thesis
    unfolding onEnd_def Let_def
    using tap s2 by (simp add: handlesFresh_scheduleStop handlesFresh_releaseFling)
qed


lemma onStart_handles:
  "stopTimeout (onStart cfg d ev s) = stopTimeout s" "nextTimer (onStart cfg d ev s) = nextTimer s"
  by (simp_all add: onStart_def Let_def addMoveEvent_def)

lemma scrollBy_handles:
  "stopTimeout (scrollBy cfg x y s) = stopTimeout s" "nextTimer (scrollBy cfg x y s) = nextTimer s"
  by (simp_all add: scrollBy_def split: option.split TouchTypes.split)

lemma onMove_handles:
  "stopTimeout (onMove cfg ev s) = stopTimeout s" "nextTimer (onMove cfg ev s) = nextTimer s"
  by (simp_all add: onMove_def Let_def scrollBy_handles)

lemma fold_onMove_handles:
  "stopTimeout (fold (\<lambda>l. onMove cfg ev) ls s) = stopTimeout s"
  "nextTimer (fold (\<lambda>l. onMove cfg ev) ls s) = nextTimer s"
  by (induction ls arbitrary: s) (simp_all add: onMove_handles)

lemma dispatchMove_handles:
  "stopTimeout (dispatchMove cfg ev s) = stopTimeout s"
  "nextTimer (dispatchMove cfg ev s) = nextTimer s"
  by (simp_all add: dispatchMove_def fold_onMove_handles)

lemma tickX_handles:
  "stopTimeout (snd (tickX cfg el fs)) = stopTimeout (snd fs)"
  "nextTimer (snd (tickX cfg el fs)) = nextTimer (snd fs)"
  by (simp_all add: tickX_def Let_def)

lemma tickY_handles:
  "stopTimeout (snd (tickY cfg el fs)) = stopTimeout (snd fs)"
  "nextTimer (snd (tickY cfg el fs)) = nextTimer (snd fs)"
  by (simp_all add: tickY_def Let_def)

lemma handlesFresh_stopCallback: "handlesFresh s \<Longrightarrow> handlesFresh (stopCallback s)"
proof -
  assume a: "handlesFresh s"
  define s1 where "s1 = (case stopTimeout s of None \<Rightarrow> s | Some h \<Rightarrow> clearTimer h s)"
  have "handlesFresh s1"
    using a by (cases "stopTimeout s") (simp_all add: s1_def handlesFresh_clearTimer)
  then have "handlesFresh (s1\<lparr> element := None, scrolling := False \<rparr>)"
    by (rule handlesFresh_same) simp_all
  then show ?thesis
    unfolding stopCallback_def s1_def [symmetric] by (simp add: Let_def)
qed

lemma handlesFresh_clearScrollInterval:
  "handlesFresh s \<Longrightarrow> handlesFresh (clearScrollInterval s)"
  by (cases "scrollInterval s") (simp_all add: clearScrollInterval_def handlesFresh_clearTimer)

lemma handlesFresh_tick:
  assumes "handlesFresh s" and "timers s h = Some (Interval f)"
  shows "handlesFresh (tick cfg h f s)"
proof (cases "fl_element f")
  case None
  then show ?thesis using assms(1) by (simp add: tick_def handlesFresh_clearScrollInterval)
next
  case (Some el)
  let ?fs = "tickY cfg el (tickX cfg el (f, s))"
  have t: "timers (snd ?fs) = timers s" "scrollInterval (snd ?fs) = scrollInterval s"
    "stopTimeout (snd ?fs) = stopTimeout s" "nextTimer (snd ?fs) = nextTimer s"
    by (simp_all add: tickY_timers tickX_timers tickY_handles tickX_handles)
  have "handlesFresh ((snd ?fs)\<lparr> timers := (timers (snd ?fs))(h \<mapsto> Interval g) \<rparr>)" for g
    using assms t by (auto simp: handlesFresh_def)
  then show ?thesis
    using Some by (simp add: tick_def Let_def handlesFresh_clearScrollInterval)
qed

lemma handlesFresh_fire: "handlesFresh s \<Longrightarrow> handlesFresh (fire cfg h s)"
  by (simp add: fire_def handlesFresh_tick handlesFresh_stopCallback handlesFresh_clearTimer
      split: option.split timer.split)

lemma handlesFresh_step:
  assumes "handlesFresh s"
  shows "handlesFresh (step cfg d s a)"
proof -
  have p: "handlesFresh (s\<lparr> defaultPrevented := False \<rparr>)"
    using assms by (rule handlesFresh_same) simp_all
  show ?thesis
  proof (cases a)
    case (Start ev)
    show ?thesis
      unfolding Start step.simps using p
      by (rule handlesFresh_same) (simp_all add: onStart_timers onStart_handles)
  next
    case (Move ev)
    show ?thesis
      unfolding Move step.simps using p
      by (rule handlesFresh_same) (simp_all add: dispatchMove_timers dispatchMove_handles)
  next
    case (End ev)
    show ?thesis unfolding End step.simps using p by (rule handlesFresh_onEnd)
  next
    case (Fire h)
    show ?thesis unfolding Fire step.simps using assms by (rule handlesFresh_fire)
  qed
qed

lemma handlesFresh_run: "handlesFresh s \<Longrightarrow> handlesFresh (run cfg d s acts)"
  unfolding run_def by (induction acts arbitrary: s) (simp_all add: handlesFresh_step)

lemma handlesFresh_newState: "handlesFresh (newState l t)"
  by (simp add: handlesFresh_def newState_def)

subsection \<open>One tick of the fling, and many\<close>

lemma tickX_fst:
  "fst (tickX cfg el (f, s)) =
     (if js_abs_gt_1 (fl_x f) \<and> touchType cfg \<noteq> VERTICAL
      then f\<lparr> fl_x := js_minus (fl_x f) (js_divide (fl_x f) (fl_time f)) \<rparr> else f)"
  by (simp add: tickX_def Let_def)

lemma tickX_snd:
  "snd (tickX cfg el (f, s)) =
     (if js_abs_gt_1 (fl_x f) \<and> touchType cfg \<noteq> VERTICAL
      then s\<lparr> scrollLeft := (scrollLeft s)(el :=
               scrollSet (js_plus (Fin (scrollLeft s el)) (js_divide (fl_x f) (fl_time f)))) \<rparr>
      else s)"
  by (simp add: tickX_def Let_def)

lemma tickY_fst:
  "fst (tickY cfg el (f, s)) =
     (if js_abs_gt_1 (fl_y f) \<and> touchType cfg \<noteq> HORIZONTAL
      then f\<lparr> fl_y := js_minus (fl_y f) (js_divide (fl_y f) (fl_time f)) \<rparr> else f)"
  by (simp add: tickY_def Let_def)

lemma tickY_snd:
  "snd (tickY cfg el (f, s)) =
     (if js_abs_gt_1 (fl_y f) \<and> touchType cfg \<noteq> HORIZONTAL
      then s\<lparr> scrollTop := (scrollTop s)(el :=
               scrollSet (js_plus (Fin (scrollTop s el)) (js_divide (fl_y f) (fl_time f)))) \<rparr>
      else s)"
  by (simp add: tickY_def Let_def)

lemma tick_closure:
  "fst (tickY cfg el (tickX cfg el (f, s)))\<lparr> fl_count := fl_count (fst (tickY cfg el (tickX cfg el (f, s)))) + 1 \<rparr>
   = tickedFling cfg f"
  by (cases "tickX cfg el (f, s)") (use tickX_fst [of cfg el f s] in \<open>auto simp: tickY_fst tickedFling_def\<close>)

lemma tick_fst_fields:
  "fl_count (fst (tickY cfg el (tickX cfg el (f, s)))) = fl_count f"
  "fl_time (fst (tickY cfg el (tickX cfg el (f, s)))) = fl_time f"
  "fl_element (fst (tickY cfg el (tickX cfg el (f, s)))) = fl_element f"
  by (cases "tickX cfg el (f, s)"; use tickX_fst [of cfg el f s] in \<open>auto simp: tickY_fst\<close>)+

lemma clearScrollInterval_fields:
  "scrollInterval (clearScrollInterval s) = scrollInterval s"
  "scrollInterval s = Some h \<Longrightarrow> timers (clearScrollInterval s) h = None"
  "element (clearScrollInterval s) = element s"
  by (simp_all add: clearScrollInterval_def clearTimer_def split: option.split)

lemma tick_scrollInterval: "scrollInterval (tick cfg h f s) = scrollInterval s"
  by (simp add: tick_def Let_def clearScrollInterval_fields tickX_timers tickY_timers
      split: option.split)

lemma tick_timer:
  assumes "scrollInterval s = Some h" and "fl_element f = Some el"
  shows "timers (tick cfg h f s) h =
     (if js_count_ge (fl_count f + 1) (fl_time f) then None
      else Some (Interval (tickedFling cfg f)))"
proof -
  let ?fs = "tickY cfg el (tickX cfg el (f, s))"
  let ?s1 = "(snd ?fs)\<lparr> timers := (timers (snd ?fs))(h \<mapsto> Interval (tickedFling cfg f)) \<rparr>"
  have cnt: "fl_count (tickedFling cfg f) = fl_count f + 1" "fl_time (tickedFling cfg f) = fl_time f"
    by (simp_all add: tickedFling_def)
  have eq: "tick cfg h f s = (if js_count_ge (fl_count f + 1) (fl_time f)
      then clearScrollInterval ?s1 else ?s1)"
    using assms(2) tick_closure [of cfg el f s] by (simp add: tick_def Let_def tick_fst_fields)
  have "scrollInterval ?s1 = Some h"
    using assms(1) by (simp add: tickX_timers tickY_timers)
  then have "timers (clearScrollInterval ?s1) h = None"
    by (rule clearScrollInterval_fields(2))
  then show ?thesis unfolding eq by simp
qed

lemma tick_scrollLeft:
  assumes "fl_element f = Some el"
  shows "scrollLeft (tick cfg h f s) =
     (if js_abs_gt_1 (fl_x f) \<and> touchType cfg \<noteq> VERTICAL
      then (scrollLeft s)(el := scrollSet (js_plus (Fin (scrollLeft s el)) (js_divide (fl_x f) (fl_time f))))
      else scrollLeft s)"
  using assms
  by (simp add: tick_def Let_def clearScrollInterval_offsets tickY_frame tickX_snd)

lemma tick_scrollTop:
  assumes "fl_element f = Some el"
  shows "scrollTop (tick cfg h f s) =
     (if js_abs_gt_1 (fl_y f) \<and> touchType cfg \<noteq> HORIZONTAL
      then (scrollTop s)(el := scrollSet (js_plus (Fin (scrollTop s el)) (js_divide (fl_y f) (fl_time f))))
      else scrollTop s)"
proof -
  obtain f1 s1 where p: "tickX cfg el (f, s) = (f1, s1)" by (cases "tickX cfg el (f, s)")
  have f1: "fl_y f1 = fl_y f" "fl_time f1 = fl_time f"
    using tickX_fst [of cfg el f s] p by (auto split: if_splits)
  have s1: "scrollTop s1 = scrollTop s"
    using tickX_frame(1) [of cfg el "(f, s)"] p by simp
  show ?thesis
    using assms
    by (simp add: tick_def Let_def clearScrollInterval_offsets p tickY_snd f1 s1)
qed

lemma tick_no_element:
  assumes "fl_element f = None" and "scrollInterval s = Some h"
  shows "timers (tick cfg h f s) h = None" "scrollLeft (tick cfg h f s) = scrollLeft s"
    "scrollTop (tick cfg h f s) = scrollTop s"
  using assms by (simp_all add: tick_def clearScrollInterval_fields clearScrollInterval_offsets)

lemma fire_live:
  "timers s h = Some (Interval f) \<Longrightarrow> fire cfg h s = tick cfg h f s"
  by (simp add: fire_def)

lemma ticks_live:
  assumes "timers s h = Some (Interval f)" and "scrollInterval s = Some h"
    and "fl_element f = Some el" and "fl_time f = Fin n"
    and "real (fl_count f + k) < n"
  shows "\<exists>g. timers ((fire cfg h ^^ k) s) h = Some (Interval g)
           \<and> fl_count g = fl_count f + k \<and> fl_time g = Fin n \<and> fl_element g = Some el
           \<and> scrollInterval ((fire cfg h ^^ k) s) = Some h"
  using assms(5)
proof (induction k)
  case 0
  show ?case using assms(1-4) by simp
next
  case (Suc k)
  then have "real (fl_count f + k) < n" by simp
  from Suc.IH [OF this] obtain g where g:
    "timers ((fire cfg h ^^ k) s) h = Some (Interval g)" "fl_count g = fl_count f + k"
    "fl_time g = Fin n" "fl_element g = Some el" "scrollInterval ((fire cfg h ^^ k) s) = Some h"
    by blast
  let ?s = "(fire cfg h ^^ k) s"
  have step: "(fire cfg h ^^ Suc k) s = tick cfg h g ?s"
    using g(1) by (simp add: fire_live)
  have "\<not> js_count_ge (fl_count g + 1) (fl_time g)"
    using Suc.prems g(2,3) by simp
  then have "timers (tick cfg h g ?s) h = Some (Interval (tickedFling cfg g))"
    using tick_timer [OF g(5) g(4), of cfg] by simp
  moreover have "fl_count (tickedFling cfg g) = fl_count f + Suc k"
    "fl_time (tickedFling cfg g) = Fin n" "fl_element (tickedFling cfg g) = Some el"
    using g(2-4) by (simp_all add: tickedFling_def)
  moreover have "scrollInterval (tick cfg h g ?s) = Some h"
    using g(5) by (simp add: tick_scrollInterval)
  ultimately show ?case unfolding step by blast
qed

lemma ticks_cancel:
  assumes "timers s h = Some (Interval f)" and "scrollInterval s = Some h"
    and "fl_element f = Some el" and "fl_time f = Fin n"
    and "real (fl_count f + k) < n" and "n \<le> real (fl_count f + k + 1)"
  shows "timers ((fire cfg h ^^ Suc k) s) h = None"
proof -
  from ticks_live [OF assms(1-5), of cfg] obtain g where g:
    "timers ((fire cfg h ^^ k) s) h = Some (Interval g)" "fl_count g = fl_count f + k"
    "fl_time g = Fin n" "fl_element g = Some el" "scrollInterval ((fire cfg h ^^ k) s) = Some h"
    by blast
  have "js_count_ge (fl_count g + 1) (fl_time g)"
    using assms(6) g(2,3) by simp
  then have "timers (tick cfg h g ((fire cfg h ^^ k) s)) h = None"
    using tick_timer [OF g(5) g(4), of cfg] by simp
  then show ?thesis using g(1) by (simp add: fire_live)
qed

lemma run_append: "run cfg d s (as @ bs) = run cfg d (run cfg d s as) bs"
  by (simp add: run_def)

lemma run_replicate_Fire: "run cfg d s (replicate k (Fire h)) = (fire cfg h ^^ k) s"
proof (induction k arbitrary: s)
  case 0
  show ?case by (simp add: run_def)
next
  case (Suc k)
  have "run cfg d s (replicate (Suc k) (Fire h)) = run cfg d (fire cfg h s) (replicate k (Fire h))"
    by (simp add: run_def)
  also have "\<dots> = (fire cfg h ^^ k) (fire cfg h s)" by (rule Suc.IH)
  also have "\<dots> = (fire cfg h ^^ Suc k) s" by (simp add: funpow_swap1)
  finally show ?case .
qed

lemma clearScrollInterval_timer_cases:
  "timers (clearScrollInterval s) h = None \<or> timers (clearScrollInterval s) h = timers s h"
  by (simp add: clearScrollInterval_def clearTimer_def split: option.split)

lemma tick_timer_cases:
  "timers (tick cfg h f s) h = None \<or> timers (tick cfg h f s) h = timers s h
   \<or> timers (tick cfg h f s) h = Some (Interval (tickedFling cfg f))"
proof (cases "fl_element f")
  case None
  then show ?thesis
    using clearScrollInterval_timer_cases [of s h] by (auto simp: tick_def)
next
  case (Some el)
  let ?fs = "tickY cfg el (tickX cfg el (f, s))"
  let ?s1 = "(snd ?fs)\<lparr> timers := (timers (snd ?fs))(h \<mapsto> Interval (tickedFling cfg f)) \<rparr>"
  have eq: "tick cfg h f s = (if js_count_ge (fl_count f + 1) (fl_time f)
      then clearScrollInterval ?s1 else ?s1)"
    using Some tick_closure [of cfg el f s] by (simp add: tick_def Let_def tick_fst_fields)
  show ?thesis
    unfolding eq using clearScrollInterval_timer_cases [of ?s1 h] by auto
qed

lemma restsX_fire:
  assumes "restsX h s"
  shows "restsX h (fire cfg h s) \<and> scrollLeft (fire cfg h s) = scrollLeft s"
proof (cases "timers s h")
  case None
  then show ?thesis using assms by (simp add: fire_def)
next
  case (Some t)
  then obtain f where f: "timers s h = Some (Interval f)" "\<not> js_abs_gt_1 (fl_x f)"
    using assms by (cases t) (simp_all add: restsX_def)
  have "fl_x (tickedFling cfg f) = fl_x f"
    using f(2) by (simp add: tickedFling_def)
  then have "restsX h (tick cfg h f s)"
    using tick_timer_cases [of cfg h f s] f by (auto simp: restsX_def)
  moreover have "scrollLeft (tick cfg h f s) = scrollLeft s"
  proof (cases "fl_element f")
    case None
    then show ?thesis by (simp add: tick_def clearScrollInterval_offsets)
  next
    case (Some el)
    then show ?thesis using f(2) by (simp add: tick_scrollLeft)
  qed
  ultimately show ?thesis using f(1) by (simp add: fire_live)
qed

lemma restsY_fire:
  assumes "restsY h s"
  shows "restsY h (fire cfg h s) \<and> scrollTop (fire cfg h s) = scrollTop s"
proof (cases "timers s h")
  case None
  then show ?thesis using assms by (simp add: fire_def)
next
  case (Some t)
  then obtain f where f: "timers s h = Some (Interval f)" "\<not> js_abs_gt_1 (fl_y f)"
    using assms by (cases t) (simp_all add: restsY_def)
  have "fl_y (tickedFling cfg f) = fl_y f"
    using f(2) by (simp add: tickedFling_def)
  then have "restsY h (tick cfg h f s)"
    using tick_timer_cases [of cfg h f s] f by (auto simp: restsY_def)
  moreover have "scrollTop (tick cfg h f s) = scrollTop s"
  proof (cases "fl_element f")
    case None
    then show ?thesis by (simp add: tick_def clearScrollInterval_offsets)
  next
    case (Some el)
    then show ?thesis using f(2) by (simp add: tick_scrollTop)
  qed
  ultimately show ?thesis using f(1) by (simp add: fire_live)
qed

lemma restsX_ticks: "restsX h s \<Longrightarrow> scrollLeft ((fire cfg h ^^ k) s) = scrollLeft s"
proof (induction k arbitrary: s)
  case 0
  show ?case by simp
next
  case (Suc k)
  have "(fire cfg h ^^ Suc k) s = (fire cfg h ^^ k) (fire cfg h s)"
    by (simp add: funpow_swap1)
  then show ?case
    using Suc.IH [of "fire cfg h s"] restsX_fire [OF Suc.prems, of cfg] by simp
qed

lemma restsY_ticks: "restsY h s \<Longrightarrow> scrollTop ((fire cfg h ^^ k) s) = scrollTop s"
proof (induction k arbitrary: s)
  case 0
  show ?case by simp
next
  case (Suc k)
  have "(fire cfg h ^^ Suc k) s = (fire cfg h ^^ k) (fire cfg h s)"
    by (simp add: funpow_swap1)
  then show ?case
    using Suc.IH [of "fire cfg h s"] restsY_fire [OF Suc.prems, of cfg] by simp
qed

lemma flingDrag_state:
  "timers (run defaultConfig (chainDom 3 0) freshState flingDrag) 1
     = Some (Interval \<lparr> fl_element = Some 0, fl_x = Fin 50, fl_y = Fin 0, fl_time = Fin 10,
                          fl_count = 0 \<rparr>)"
  "scrollInterval (run defaultConfig (chainDom 3 0) freshState flingDrag) = Some 1"
  "scrollLeft (run defaultConfig (chainDom 3 0) freshState flingDrag) 0 = 100"
  by code_simp+

lemma flingDrag_before_release:
  "lastDeltaX (run defaultConfig (chainDom 3 0) freshState (take 2 flingDrag)) = 100"
  "lastDeltaY (run defaultConfig (chainDom 3 0) freshState (take 2 flingDrag)) = 0"
  "lastStart (run defaultConfig (chainDom 3 0) freshState (take 2 flingDrag)) = 0"
  "totalDelta (run defaultConfig (chainDom 3 0) freshState (take 2 flingDrag)) = 100"
  "element (run defaultConfig (chainDom 3 0) freshState (take 2 flingDrag)) = Some 0"
  "nextTimer (run defaultConfig (chainDom 3 0) freshState (take 2 flingDrag)) = 1"
  by code_simp+

lemma flingDrag_ticks:
  "isFling (timers (run defaultConfig (chainDom 3 0) freshState (flingDrag @ replicate 9 (Fire 1))) 1)"
  "timers (run defaultConfig (chainDom 3 0) freshState (flingDrag @ replicate 10 (Fire 1))) 1 = None"
proof -
  let ?s = "run defaultConfig (chainDom 3 0) freshState flingDrag"
  let ?f = "\<lparr> fl_element = Some 0, fl_x = Fin 50, fl_y = Fin 0, fl_time = Fin 10, fl_count = 0 \<rparr>"
  have r: "run defaultConfig (chainDom 3 0) freshState (flingDrag @ replicate k (Fire 1))
      = (fire defaultConfig 1 ^^ k) ?s" for k
    by (simp add: run_append run_replicate_Fire)
  have el: "fl_element ?f = Some 0" and tm: "fl_time ?f = Fin 10" by simp_all
  have lt: "real (fl_count ?f + 9) < 10" and ge: "10 \<le> real (fl_count ?f + 9 + 1)" by simp_all
  from ticks_live [OF flingDrag_state(1) flingDrag_state(2) el tm lt, of defaultConfig]
  show "isFling (timers (run defaultConfig (chainDom 3 0) freshState
      (flingDrag @ replicate 9 (Fire 1))) 1)"
    unfolding r by auto
  from ticks_cancel [OF flingDrag_state(1) flingDrag_state(2) el tm lt ge, of defaultConfig]
  show "timers (run defaultConfig (chainDom 3 0) freshState
      (flingDrag @ replicate 10 (Fire 1))) 1 = None"
    unfolding r by simp
qed

lemma second_tick:
  "timers (run defaultConfig (chainDom 3 0) freshState (flingDrag @ [Fire 1])) 1
     = Some (Interval \<lparr> fl_element = Some 0, fl_x = Fin 45, fl_y = Fin 0, fl_time = Fin 10,
                          fl_count = 1 \<rparr>)"
  "scrollLeft (run defaultConfig (chainDom 3 0) freshState (flingDrag @ [Fire 1])) 0 = 105"
  "scrollLeft (run defaultConfig (chainDom 3 0) freshState (flingDrag @ [Fire 1, Fire 1])) 0 = 219 / 2"
  by code_simp+

text \<open>
  Claim C3 says that a tick applies the remaining delta divided by the number of steps
  not yet taken. The source divides by \<^verbatim>\<open>time\<close>, the constant step budget. After the
  release of the drag \<open>flingDrag\<close> the fling has 50 pixels to travel in a budget of 10
  steps. Its first tick applies 5 and leaves 45 with 9 steps not yet taken, so the second
  tick would apply 5 again; it applies 4.5.
\<close>

theorem tick_divides_by_steps_left_counterexample:
  "timers (run defaultConfig (chainDom 3 0) freshState (flingDrag @ [Fire 1])) 1
     = Some (Interval \<lparr> fl_element = Some 0, fl_x = Fin 45, fl_y = Fin 0, fl_time = Fin 10,
                          fl_count = 1 \<rparr>)
   \<and> remainingOverStepsLeft
         \<lparr> fl_element = Some 0, fl_x = Fin 45, fl_y = Fin 0, fl_time = Fin 10, fl_count = 1 \<rparr>
       = Fin 5
   \<and> scrollLeft (run defaultConfig (chainDom 3 0) freshState (flingDrag @ [Fire 1, Fire 1])) 0
       - scrollLeft (run defaultConfig (chainDom 3 0) freshState (flingDrag @ [Fire 1])) 0
       = 9 / 2
   \<and> Fin (scrollLeft (run defaultConfig (chainDom 3 0) freshState (flingDrag @ [Fire 1, Fire 1])) 0
          - scrollLeft (run defaultConfig (chainDom 3 0) freshState (flingDrag @ [Fire 1])) 0)
       \<noteq> remainingOverStepsLeft
           \<lparr> fl_element = Some 0, fl_x = Fin 45, fl_y = Fin 0, fl_time = Fin 10, fl_count = 1 \<rparr>"
proof -
  have spec: "remainingOverStepsLeft
         \<lparr> fl_element = Some 0, fl_x = Fin 45, fl_y = Fin 0, fl_time = Fin 10, fl_count = 1 \<rparr>
       = Fin 5"
    by (simp add: remainingOverStepsLeft_def stepsLeft_def js_minus_def)
  have code: "scrollLeft (run defaultConfig (chainDom 3 0) freshState (flingDrag @ [Fire 1, Fire 1])) 0
       - scrollLeft (run defaultConfig (chainDom 3 0) freshState (flingDrag @ [Fire 1])) 0
       = 9 / 2"
    unfolding second_tick by simp
  have "Fin (scrollLeft (run defaultConfig (chainDom 3 0) freshState (flingDrag @ [Fire 1, Fire 1])) 0
          - scrollLeft (run defaultConfig (chainDom 3 0) freshState (flingDrag @ [Fire 1])) 0)
       \<noteq> remainingOverStepsLeft
           \<lparr> fl_element = Some 0, fl_x = Fin 45, fl_y = Fin 0, fl_time = Fin 10, fl_count = 1 \<rparr>"
    unfolding spec code by simp
  then show ?thesis
    using second_tick(1) spec code by blast
qed

lemma tickedFling_finite:
  assumes "fl_element f = Some el" and "fl_x f = Fin x" and "fl_y f = Fin y"
    and "fl_time f = Fin n" and "n \<noteq> 0"
  shows "tickedFling cfg f =
     \<lparr> fl_element = Some el,
       fl_x = Fin (if 1 < \<bar>x\<bar> \<and> touchType cfg \<noteq> VERTICAL then x - x / n else x),
       fl_y = Fin (if 1 < \<bar>y\<bar> \<and> touchType cfg \<noteq> HORIZONTAL then y - y / n else y),
       fl_time = Fin n, fl_count = fl_count f + 1 \<rparr>"
  using assms by (simp add: tickedFling_def js_minus_def)

text \<open>
  Claim C3, amended. A tick of a live fling whose element is set and whose parameters are
  finite adds, on each axis that the scroll type permits and whose remaining delta exceeds
  1 in magnitude, the remaining delta divided by the step budget to the offset, and takes
  the same amount off the remaining delta; it leaves the other axis alone; it counts the
  tick, and clears the interval when the count has reached the step budget. A tick of a
  fling whose element is null clears the interval and writes nothing. An axis whose
  remaining delta does not exceed 1 in magnitude is never written again, however many
  ticks follow.
\<close>

theorem fling_tick:
  assumes live: "timers s h = Some (Interval f)" and cur: "scrollInterval s = Some h"
  shows
    "(fl_element f = None \<longrightarrow>
        timers (fire cfg h s) h = None \<and> scrollLeft (fire cfg h s) = scrollLeft s
        \<and> scrollTop (fire cfg h s) = scrollTop s)
     \<and> (\<forall>el x y n.
          fl_element f = Some el \<and> fl_x f = Fin x \<and> fl_y f = Fin y \<and> fl_time f = Fin n \<and> n \<noteq> 0
          \<longrightarrow>
            scrollLeft (fire cfg h s) el =
              (if 1 < \<bar>x\<bar> \<and> touchType cfg \<noteq> VERTICAL then scrollLeft s el + x / n
               else scrollLeft s el)
            \<and> scrollTop (fire cfg h s) el =
              (if 1 < \<bar>y\<bar> \<and> touchType cfg \<noteq> HORIZONTAL then scrollTop s el + y / n
               else scrollTop s el)
            \<and> timers (fire cfg h s) h =
              (if n \<le> real (fl_count f + 1) then None
               else Some (Interval
                 \<lparr> fl_element = Some el,
                   fl_x = Fin (if 1 < \<bar>x\<bar> \<and> touchType cfg \<noteq> VERTICAL then x - x / n else x),
                   fl_y = Fin (if 1 < \<bar>y\<bar> \<and> touchType cfg \<noteq> HORIZONTAL then y - y / n else y),
                   fl_time = Fin n, fl_count = fl_count f + 1 \<rparr>)))
     \<and> (\<not> js_abs_gt_1 (fl_x f) \<longrightarrow> (\<forall>k. scrollLeft ((fire cfg h ^^ k) s) = scrollLeft s))
     \<and> (\<not> js_abs_gt_1 (fl_y f) \<longrightarrow> (\<forall>k. scrollTop ((fire cfg h ^^ k) s) = scrollTop s))"
proof (intro conjI impI allI)
  assume "fl_element f = None"
  then show "timers (fire cfg h s) h = None" "scrollLeft (fire cfg h s) = scrollLeft s"
    "scrollTop (fire cfg h s) = scrollTop s"
    using tick_no_element [of f s h cfg] cur by (simp_all add: fire_live [OF live])
next
  fix el x y n
  assume a: "fl_element f = Some el \<and> fl_x f = Fin x \<and> fl_y f = Fin y \<and> fl_time f = Fin n \<and> n \<noteq> 0"
  show "scrollLeft (fire cfg h s) el =
      (if 1 < \<bar>x\<bar> \<and> touchType cfg \<noteq> VERTICAL then scrollLeft s el + x / n else scrollLeft s el)"
    using a by (simp add: fire_live [OF live] tick_scrollLeft [of f el])
  show "scrollTop (fire cfg h s) el =
      (if 1 < \<bar>y\<bar> \<and> touchType cfg \<noteq> HORIZONTAL then scrollTop s el + y / n else scrollTop s el)"
    using a by (simp add: fire_live [OF live] tick_scrollTop [of f el])
  have "tickedFling cfg f =
     \<lparr> fl_element = Some el,
       fl_x = Fin (if 1 < \<bar>x\<bar> \<and> touchType cfg \<noteq> VERTICAL then x - x / n else x),
       fl_y = Fin (if 1 < \<bar>y\<bar> \<and> touchType cfg \<noteq> HORIZONTAL then y - y / n else y),
       fl_time = Fin n, fl_count = fl_count f + 1 \<rparr>"
    using a by (intro tickedFling_finite) simp_all
  then show "timers (fire cfg h s) h =
      (if n \<le> real (fl_count f + 1) then None
       else Some (Interval
         \<lparr> fl_element = Some el,
           fl_x = Fin (if 1 < \<bar>x\<bar> \<and> touchType cfg \<noteq> VERTICAL then x - x / n else x),
           fl_y = Fin (if 1 < \<bar>y\<bar> \<and> touchType cfg \<noteq> HORIZONTAL then y - y / n else y),
           fl_time = Fin n, fl_count = fl_count f + 1 \<rparr>))"
    using a tick_timer [OF cur, of f el cfg] by (simp add: fire_live [OF live])
next
  fix k
  assume "\<not> js_abs_gt_1 (fl_x f)"
  then have "restsX h s" using live by (simp add: restsX_def)
  then show "scrollLeft ((fire cfg h ^^ k) s) = scrollLeft s" by (rule restsX_ticks)
next
  fix k
  assume "\<not> js_abs_gt_1 (fl_y f)"
  then have "restsY h s" using live by (simp add: restsY_def)
  then show "scrollTop ((fire cfg h ^^ k) s) = scrollTop s" by (rule restsY_ticks)
qed

theorem fling_tick_witness:
  "timers (run defaultConfig (chainDom 3 0) freshState flingDrag) 1
     = Some (Interval \<lparr> fl_element = Some 0, fl_x = Fin 50, fl_y = Fin 0, fl_time = Fin 10,
                          fl_count = 0 \<rparr>)
   \<and> scrollInterval (run defaultConfig (chainDom 3 0) freshState flingDrag) = Some 1
   \<and> scrollLeft (run defaultConfig (chainDom 3 0) freshState flingDrag) 0 = 100
   \<and> scrollLeft (fire defaultConfig 1 (run defaultConfig (chainDom 3 0) freshState flingDrag)) 0 = 105
   \<and> timers (fire defaultConfig 1 (run defaultConfig (chainDom 3 0) freshState flingDrag)) 1
       = Some (Interval \<lparr> fl_element = Some 0, fl_x = Fin 45, fl_y = Fin 0, fl_time = Fin 10,
                            fl_count = 1 \<rparr>)
   \<and> scrollTop ((fire defaultConfig 1 ^^ 7) (run defaultConfig (chainDom 3 0) freshState flingDrag))
       = scrollTop (run defaultConfig (chainDom 3 0) freshState flingDrag)"
proof -
  let ?s = "run defaultConfig (chainDom 3 0) freshState flingDrag"
  let ?f = "\<lparr> fl_element = Some 0, fl_x = Fin 50, fl_y = Fin 0, fl_time = Fin 10, fl_count = 0 \<rparr>"
  note t = fling_tick [OF flingDrag_state(1) flingDrag_state(2), of defaultConfig]
  have both: "touchType defaultConfig = BOTH"
    by (simp add: defaultConfig_def newConfig_def)
  have pre: "fl_element ?f = Some 0 \<and> fl_x ?f = Fin 50 \<and> fl_y ?f = Fin 0 \<and> fl_time ?f = Fin 10
      \<and> (10::real) \<noteq> 0"
    by simp
  note fin = t [THEN conjunct2, THEN conjunct1, rule_format, OF pre]
  have left: "scrollLeft (fire defaultConfig 1 ?s) 0 = 105"
    using fin [THEN conjunct1] by (simp add: both flingDrag_state(3))
  have closure: "timers (fire defaultConfig 1 ?s) 1
       = Some (Interval \<lparr> fl_element = Some 0, fl_x = Fin 45, fl_y = Fin 0, fl_time = Fin 10,
                            fl_count = 1 \<rparr>)"
    using fin [THEN conjunct2, THEN conjunct2] by (simp add: both)
  have "\<not> js_abs_gt_1 (fl_y ?f)" by simp
  then have rest: "scrollTop ((fire defaultConfig 1 ^^ 7) ?s) = scrollTop ?s"
    using t [THEN conjunct2, THEN conjunct2, THEN conjunct2] by blast
  show ?thesis
    using flingDrag_state left closure rest by blast
qed

subsection \<open>The release\<close>

lemma smoothScrollBy_fields:
  "timers (smoothScrollBy el x y t s) (nextTimer s)
     = Some (Interval \<lparr> fl_element = el, fl_x = x, fl_y = y, fl_time = t, fl_count = 0 \<rparr>)"
  "nextTimer (smoothScrollBy el x y t s) = nextTimer s + 1"
  "stopTimeout (smoothScrollBy el x y t s) = stopTimeout s"
  "scrollInterval (smoothScrollBy el x y t s) = Some (nextTimer s)"
  by (simp_all add: smoothScrollBy_def Let_def clearTimer_def split: option.split)

lemma scheduleStop_fields:
  "stopTimeout s \<noteq> Some h \<Longrightarrow> h \<noteq> nextTimer s \<Longrightarrow> timers (scheduleStop s) h = timers s h"
  "scrollInterval (scheduleStop s) = scrollInterval s"
  by (simp_all add: scheduleStop_def Let_def clearTimer_def split: option.split)

lemma releaseFling_fields:
  "timers (releaseFling ev s) (nextTimer s)
     = Some (Interval
         \<lparr> fl_element = element s,
           fl_x = (if lastDeltaX s = 0 then Fin 0
                   else js_divide (Fin (lastDeltaX s)) (Fin ((timeStamp ev - lastStart s) * (8 / 1000)))),
           fl_y = (if lastDeltaY s = 0 then Fin 0
                   else js_divide (Fin (lastDeltaY s)) (Fin ((timeStamp ev - lastStart s) * (8 / 1000)))),
           fl_time = js_divide (Fin 20) (Fin ((timeStamp ev - lastStart s) * (8 / 1000))),
           fl_count = 0 \<rparr>)"
  "nextTimer (releaseFling ev s) = nextTimer s + 1"
  "stopTimeout (releaseFling ev s) = stopTimeout s"
  "scrollInterval (releaseFling ev s) = Some (nextTimer s)"
proof -
  let ?s1 = "s\<lparr> lastEnd := timeStamp ev \<rparr>"
  have n: "nextTimer ?s1 = nextTimer s" by simp
  show "timers (releaseFling ev s) (nextTimer s)
     = Some (Interval
         \<lparr> fl_element = element s,
           fl_x = (if lastDeltaX s = 0 then Fin 0
                   else js_divide (Fin (lastDeltaX s)) (Fin ((timeStamp ev - lastStart s) * (8 / 1000)))),
           fl_y = (if lastDeltaY s = 0 then Fin 0
                   else js_divide (Fin (lastDeltaY s)) (Fin ((timeStamp ev - lastStart s) * (8 / 1000)))),
           fl_time = js_divide (Fin 20) (Fin ((timeStamp ev - lastStart s) * (8 / 1000))),
           fl_count = 0 \<rparr>)"
    using smoothScrollBy_fields(1) [of _ _ _ _ ?s1]
    by (simp add: releaseFling_def Let_def del: js_divide.simps)
  show "nextTimer (releaseFling ev s) = nextTimer s + 1"
    using smoothScrollBy_fields(2) [of _ _ _ _ ?s1] by (simp add: releaseFling_def Let_def)
  show "stopTimeout (releaseFling ev s) = stopTimeout s"
    using smoothScrollBy_fields(3) [of _ _ _ _ ?s1] by (simp add: releaseFling_def Let_def)
  show "scrollInterval (releaseFling ev s) = Some (nextTimer s)"
    using smoothScrollBy_fields(4) [of _ _ _ _ ?s1] by (simp add: releaseFling_def Let_def)
qed


lemma removeMoveEvent_fields:
  "timers (removeMoveEvent s) = timers s" "nextTimer (removeMoveEvent s) = nextTimer s"
  "stopTimeout (removeMoveEvent s) = stopTimeout s" "scrollInterval (removeMoveEvent s) = scrollInterval s"
  "element (removeMoveEvent s) = element s" "lastDeltaX (removeMoveEvent s) = lastDeltaX s"
  "lastDeltaY (removeMoveEvent s) = lastDeltaY s" "lastStart (removeMoveEvent s) = lastStart s"
  "totalDelta (removeMoveEvent s) = totalDelta s"
  by (simp_all add: removeMoveEvent_def)

lemma onEnd_starts_fling:
  assumes fresh: "handlesFresh s" and cont: "continuousMode cfg"
    and qual: "\<not> totalDelta s < minimum cfg"
  shows "timers (onEnd cfg ev s) (nextTimer s)
     = Some (Interval
         \<lparr> fl_element = element s,
           fl_x = (if lastDeltaX s = 0 then Fin 0
                   else js_divide (Fin (lastDeltaX s)) (Fin ((timeStamp ev - lastStart s) * (8 / 1000)))),
           fl_y = (if lastDeltaY s = 0 then Fin 0
                   else js_divide (Fin (lastDeltaY s)) (Fin ((timeStamp ev - lastStart s) * (8 / 1000)))),
           fl_time = js_divide (Fin 20) (Fin ((timeStamp ev - lastStart s) * (8 / 1000))),
           fl_count = 0 \<rparr>)"
    and "scrollInterval (onEnd cfg ev s) = Some (nextTimer s)"
proof -
  define s2 where "s2 = (removeMoveEvent s)\<lparr> defaultPrevented := True \<rparr>"
  have f: "nextTimer s2 = nextTimer s" "stopTimeout s2 = stopTimeout s" "element s2 = element s"
    "lastDeltaX s2 = lastDeltaX s" "lastDeltaY s2 = lastDeltaY s" "lastStart s2 = lastStart s"
    by (simp_all add: s2_def removeMoveEvent_fields)
  have e: "onEnd cfg ev s = scheduleStop (releaseFling ev s2)"
    using cont qual by (simp add: onEnd_def Let_def s2_def removeMoveEvent_fields)
  have "stopTimeout s \<noteq> Some (nextTimer s)"
    using fresh by (auto simp: handlesFresh_def)
  then have keep: "timers (scheduleStop (releaseFling ev s2)) (nextTimer s)
      = timers (releaseFling ev s2) (nextTimer s)"
    by (intro scheduleStop_fields(1)) (simp_all add: releaseFling_fields f)
  show "timers (onEnd cfg ev s) (nextTimer s)
     = Some (Interval
         \<lparr> fl_element = element s,
           fl_x = (if lastDeltaX s = 0 then Fin 0
                   else js_divide (Fin (lastDeltaX s)) (Fin ((timeStamp ev - lastStart s) * (8 / 1000)))),
           fl_y = (if lastDeltaY s = 0 then Fin 0
                   else js_divide (Fin (lastDeltaY s)) (Fin ((timeStamp ev - lastStart s) * (8 / 1000)))),
           fl_time = js_divide (Fin 20) (Fin ((timeStamp ev - lastStart s) * (8 / 1000))),
           fl_count = 0 \<rparr>)"
    unfolding e keep using releaseFling_fields(1) [of ev s2] by (simp only: f)
  show "scrollInterval (onEnd cfg ev s) = Some (nextTimer s)"
    unfolding e by (simp add: scheduleStop_fields releaseFling_fields f)
qed


lemma onEnd_first_tick:
  assumes fresh: "handlesFresh s" and cont: "continuousMode cfg"
    and qual: "\<not> totalDelta s < minimum cfg"
    and el: "element s = Some el" and sc: "(timeStamp ev - lastStart s) * (8 / 1000) \<noteq> 0"
  shows "scrollLeft (fire cfg (nextTimer s) (onEnd cfg ev s)) el =
      (if 1 < \<bar>lastDeltaX s / ((timeStamp ev - lastStart s) * (8 / 1000))\<bar> \<and> touchType cfg \<noteq> VERTICAL
       then scrollLeft s el
            + lastDeltaX s / ((timeStamp ev - lastStart s) * (8 / 1000))
              / (20 / ((timeStamp ev - lastStart s) * (8 / 1000)))
       else scrollLeft s el)"
    and "scrollTop (fire cfg (nextTimer s) (onEnd cfg ev s)) el =
      (if 1 < \<bar>lastDeltaY s / ((timeStamp ev - lastStart s) * (8 / 1000))\<bar> \<and> touchType cfg \<noteq> HORIZONTAL
       then scrollTop s el
            + lastDeltaY s / ((timeStamp ev - lastStart s) * (8 / 1000))
              / (20 / ((timeStamp ev - lastStart s) * (8 / 1000)))
       else scrollTop s el)"
proof -
  define scaled where "scaled = (timeStamp ev - lastStart s) * (8 / 1000)"
  define f where "f = \<lparr> fl_element = element s,
      fl_x = (if lastDeltaX s = 0 then Fin 0 else js_divide (Fin (lastDeltaX s)) (Fin scaled)),
      fl_y = (if lastDeltaY s = 0 then Fin 0 else js_divide (Fin (lastDeltaY s)) (Fin scaled)),
      fl_time = js_divide (Fin 20) (Fin scaled), fl_count = 0 \<rparr>"
  have nz: "scaled \<noteq> 0" using sc by (simp add: scaled_def)
  have live: "timers (onEnd cfg ev s) (nextTimer s) = Some (Interval f)"
    unfolding f_def scaled_def by (rule onEnd_starts_fling(1) [OF fresh cont qual])
  have fields: "fl_element f = Some el" "fl_x f = Fin (lastDeltaX s / scaled)"
    "fl_y f = Fin (lastDeltaY s / scaled)" "fl_time f = Fin (20 / scaled)"
    using nz el by (simp_all add: f_def)
  have st: "fire cfg (nextTimer s) (onEnd cfg ev s) = tick cfg (nextTimer s) f (onEnd cfg ev s)"
    using live by (rule fire_live)
  show "scrollLeft (fire cfg (nextTimer s) (onEnd cfg ev s)) el =
      (if 1 < \<bar>lastDeltaX s / ((timeStamp ev - lastStart s) * (8 / 1000))\<bar> \<and> touchType cfg \<noteq> VERTICAL
       then scrollLeft s el
            + lastDeltaX s / ((timeStamp ev - lastStart s) * (8 / 1000))
              / (20 / ((timeStamp ev - lastStart s) * (8 / 1000)))
       else scrollLeft s el)"
    unfolding st scaled_def [symmetric]
    using nz by (simp add: tick_scrollLeft [OF fields(1)] fields onEnd_offsets)
  show "scrollTop (fire cfg (nextTimer s) (onEnd cfg ev s)) el =
      (if 1 < \<bar>lastDeltaY s / ((timeStamp ev - lastStart s) * (8 / 1000))\<bar> \<and> touchType cfg \<noteq> HORIZONTAL
       then scrollTop s el
            + lastDeltaY s / ((timeStamp ev - lastStart s) * (8 / 1000))
              / (20 / ((timeStamp ev - lastStart s) * (8 / 1000)))
       else scrollTop s el)"
    unfolding st scaled_def [symmetric]
    using nz by (simp add: tick_scrollTop [OF fields(1)] fields onEnd_offsets)
qed

text \<open>
  A fling that travels a delta \<open>x\<close> in a budget of \<open>n\<close> steps has, after \<open>k\<close> ticks that
  all found more than one pixel left, \<open>x (1 - 1/n)\<^sup>k\<close> still to travel and has moved the
  offset by \<open>x (1 - (1 - 1/n)\<^sup>k)\<close>: the increments decrease geometrically.
\<close>

lemma ticks_decay:
  assumes live: "timers s h = Some (Interval f)" and cur: "scrollInterval s = Some h"
    and el: "fl_element f = Some el" and fx: "fl_x f = Fin x" and tm: "fl_time f = Fin n"
    and n: "n \<noteq> 0" and ty: "touchType cfg \<noteq> VERTICAL"
    and budget: "real (fl_count f + k) < n"
    and big: "\<forall>j<k. 1 < \<bar>x * (1 - 1 / n) ^ j\<bar>"
  shows "\<exists>g. timers ((fire cfg h ^^ k) s) h = Some (Interval g)
           \<and> fl_x g = Fin (x * (1 - 1 / n) ^ k) \<and> fl_count g = fl_count f + k
           \<and> fl_time g = Fin n \<and> fl_element g = Some el
           \<and> scrollInterval ((fire cfg h ^^ k) s) = Some h
           \<and> scrollLeft ((fire cfg h ^^ k) s) el = scrollLeft s el + x * (1 - (1 - 1 / n) ^ k)"
  using budget big
proof (induction k)
  case 0
  show ?case using live cur el fx tm by simp
next
  case (Suc k)
  have "real (fl_count f + k) < n" using Suc.prems(1) by simp
  moreover have "\<forall>j<k. 1 < \<bar>x * (1 - 1 / n) ^ j\<bar>" using Suc.prems(2) by simp
  ultimately obtain g where g:
    "timers ((fire cfg h ^^ k) s) h = Some (Interval g)" "fl_x g = Fin (x * (1 - 1 / n) ^ k)"
    "fl_count g = fl_count f + k" "fl_time g = Fin n" "fl_element g = Some el"
    "scrollInterval ((fire cfg h ^^ k) s) = Some h"
    "scrollLeft ((fire cfg h ^^ k) s) el = scrollLeft s el + x * (1 - (1 - 1 / n) ^ k)"
    using Suc.IH by blast
  let ?s = "(fire cfg h ^^ k) s"
  have step: "(fire cfg h ^^ Suc k) s = tick cfg h g ?s"
    using g(1) by (simp add: fire_live)
  have gt: "js_abs_gt_1 (fl_x g)"
    using Suc.prems(2) g(2) by simp
  have "\<not> js_count_ge (fl_count g + 1) (fl_time g)"
    using Suc.prems(1) g(3,4) by simp
  then have t: "timers (tick cfg h g ?s) h = Some (Interval (tickedFling cfg g))"
    using tick_timer [OF g(6) g(5), of cfg] by simp
  have x': "fl_x (tickedFling cfg g) = Fin (x * (1 - 1 / n) ^ Suc k)"
    using gt ty g(2,4) n by (simp add: tickedFling_def js_minus_def algebra_simps)
  have rest: "fl_count (tickedFling cfg g) = fl_count f + Suc k"
    "fl_time (tickedFling cfg g) = Fin n" "fl_element (tickedFling cfg g) = Some el"
    using g(3-5) by (simp_all add: tickedFling_def)
  have cur': "scrollInterval (tick cfg h g ?s) = Some h"
    using g(6) by (simp add: tick_scrollInterval)
  have "scrollLeft (tick cfg h g ?s) el = scrollLeft ?s el + x * (1 - 1 / n) ^ k / n"
    using gt ty g(2,4) n by (simp add: tick_scrollLeft [OF g(5)])
  then have left: "scrollLeft (tick cfg h g ?s) el
      = scrollLeft s el + x * (1 - (1 - 1 / n) ^ Suc k)"
    using g(7) n by (simp add: algebra_simps)
  show ?case
    unfolding step using t x' rest cur' left by blast
qed


lemma ticks_decay_last:
  assumes live: "timers s h = Some (Interval f)" and cur: "scrollInterval s = Some h"
    and el: "fl_element f = Some el" and fx: "fl_x f = Fin x" and tm: "fl_time f = Fin n"
    and n: "n \<noteq> 0" and ty: "touchType cfg \<noteq> VERTICAL"
    and budget: "real (fl_count f + k) < n"
    and big: "\<forall>j<Suc k. 1 < \<bar>x * (1 - 1 / n) ^ j\<bar>"
  shows "scrollLeft ((fire cfg h ^^ Suc k) s) el = scrollLeft s el + x * (1 - (1 - 1 / n) ^ Suc k)"
proof -
  have "\<forall>j<k. 1 < \<bar>x * (1 - 1 / n) ^ j\<bar>" using big by simp
  from ticks_decay [OF live cur el fx tm n ty budget this] obtain g where g:
    "timers ((fire cfg h ^^ k) s) h = Some (Interval g)" "fl_x g = Fin (x * (1 - 1 / n) ^ k)"
    "fl_time g = Fin n" "fl_element g = Some el"
    "scrollLeft ((fire cfg h ^^ k) s) el = scrollLeft s el + x * (1 - (1 - 1 / n) ^ k)"
    by blast
  let ?s = "(fire cfg h ^^ k) s"
  have step: "(fire cfg h ^^ Suc k) s = tick cfg h g ?s"
    using g(1) by (simp add: fire_live)
  have gt: "js_abs_gt_1 (fl_x g)"
    using big g(2) by simp
  have "scrollLeft (tick cfg h g ?s) el = scrollLeft ?s el + x * (1 - 1 / n) ^ k / n"
    using gt ty g(2,3) n by (simp add: tick_scrollLeft [OF g(4)])
  then show ?thesis
    unfolding step using g(5) n by (simp add: algebra_simps)
qed

lemma flingDrag_decay:
  assumes "k \<le> 10"
  shows "scrollLeft (run defaultConfig (chainDom 3 0) freshState (flingDrag @ replicate k (Fire 1))) 0
     = 100 + 50 * (1 - (9 / 10) ^ k)"
proof (cases k)
  case 0
  then show ?thesis by (simp add: flingDrag_state(3))
next
  case (Suc k')
  let ?s = "run defaultConfig (chainDom 3 0) freshState flingDrag"
  let ?f = "\<lparr> fl_element = Some 0, fl_x = Fin 50, fl_y = Fin 0, fl_time = Fin 10, fl_count = 0 \<rparr>"
  have r: "run defaultConfig (chainDom 3 0) freshState (flingDrag @ replicate k (Fire 1))
      = (fire defaultConfig 1 ^^ Suc k') ?s"
    by (simp add: Suc run_append run_replicate_Fire del: funpow.simps replicate.simps)
  have el: "fl_element ?f = Some 0" and fx: "fl_x ?f = Fin 50" and tm: "fl_time ?f = Fin 10"
    by simp_all
  have n: "(10::real) \<noteq> 0" by simp
  have ty: "touchType defaultConfig \<noteq> VERTICAL"
    by (simp add: defaultConfig_def newConfig_def)
  have budget: "real (fl_count ?f + k') < 10" using assms Suc by simp
  have big: "\<forall>j<Suc k'. 1 < \<bar>(50::real) * (1 - 1 / 10) ^ j\<bar>"
  proof (intro allI impI)
    fix j assume "j < Suc k'"
    then have "j \<le> 9" using assms Suc by simp
    then have "((9 / 10)::real) ^ 9 \<le> (9 / 10) ^ j"
      by (intro power_decreasing) simp_all
    moreover have "1 < 50 * ((9 / 10)::real) ^ 9" by (simp add: power_divide)
    ultimately have "1 < 50 * ((9 / 10)::real) ^ j" by linarith
    then show "1 < \<bar>(50::real) * (1 - 1 / 10) ^ j\<bar>" by simp
  qed
  from ticks_decay_last [OF flingDrag_state(1) flingDrag_state(2) el fx tm n ty budget big]
  have "scrollLeft ((fire defaultConfig 1 ^^ Suc k') ?s) 0
      = scrollLeft ?s 0 + 50 * (1 - (1 - 1 / 10) ^ Suc k')" .
  then show ?thesis
    unfolding r by (simp add: flingDrag_state(3) Suc)
qed

text \<open>
  Claim C4 says that the drag \<open>flingDrag\<close> (accumulated delta 100, window 250 ms) gives a
  per-step velocity of 50 that is applied over 10 ticks. The release does hand 50 and a
  budget of 10 to the fling, but 50 is the delta that the fling sets out to travel, not
  what a step applies: a tick applies a tenth of what is left. The first tick moves the
  offset by 5, and the ten ticks together by \<open>50 (1 - 0.9\<^sup>1\<^sup>0)\<close>, less than 33 pixels;
  then the interval is cleared.
\<close>

theorem release_velocity_per_tick_counterexample:
  "timers (run defaultConfig (chainDom 3 0) freshState flingDrag) 1
     = Some (Interval \<lparr> fl_element = Some 0, fl_x = Fin 50, fl_y = Fin 0, fl_time = Fin 10,
                          fl_count = 0 \<rparr>)
   \<and> scrollLeft (run defaultConfig (chainDom 3 0) freshState (flingDrag @ [Fire 1])) 0
       - scrollLeft (run defaultConfig (chainDom 3 0) freshState flingDrag) 0 = 5
   \<and> scrollLeft (run defaultConfig (chainDom 3 0) freshState (flingDrag @ [Fire 1])) 0
       - scrollLeft (run defaultConfig (chainDom 3 0) freshState flingDrag) 0 \<noteq> 50
   \<and> scrollLeft (run defaultConfig (chainDom 3 0) freshState (flingDrag @ replicate 10 (Fire 1))) 0
       - scrollLeft (run defaultConfig (chainDom 3 0) freshState flingDrag) 0
       = 50 * (1 - (9 / 10) ^ 10)
   \<and> scrollLeft (run defaultConfig (chainDom 3 0) freshState (flingDrag @ replicate 10 (Fire 1))) 0
       - scrollLeft (run defaultConfig (chainDom 3 0) freshState flingDrag) 0 < 33
   \<and> timers (run defaultConfig (chainDom 3 0) freshState (flingDrag @ replicate 10 (Fire 1))) 1
       = None"
proof -
  have one: "scrollLeft (run defaultConfig (chainDom 3 0) freshState (flingDrag @ [Fire 1])) 0
       - scrollLeft (run defaultConfig (chainDom 3 0) freshState flingDrag) 0 = 5"
    unfolding second_tick(2) flingDrag_state(3) by simp
  then have ne: "scrollLeft (run defaultConfig (chainDom 3 0) freshState (flingDrag @ [Fire 1])) 0
       - scrollLeft (run defaultConfig (chainDom 3 0) freshState flingDrag) 0 \<noteq> 50"
    by simp
  have ten: "scrollLeft (run defaultConfig (chainDom 3 0) freshState (flingDrag @ replicate 10 (Fire 1))) 0
       - scrollLeft (run defaultConfig (chainDom 3 0) freshState flingDrag) 0
       = 50 * (1 - (9 / 10) ^ 10)"
    using flingDrag_decay [of 10] by (simp add: flingDrag_state(3))
  have lt: "scrollLeft (run defaultConfig (chainDom 3 0) freshState (flingDrag @ replicate 10 (Fire 1))) 0
       - scrollLeft (run defaultConfig (chainDom 3 0) freshState flingDrag) 0 < 33"
    unfolding ten by (simp add: power_divide)
  show ?thesis
    using flingDrag_state(1) one ne ten lt flingDrag_ticks(2) by blast
qed

text \<open>
  Claim C4, amended. In continuous mode, an end event in a reachable state whose
  accumulated distance is not below the minimum starts a fling. The delta that the fling
  is given to travel on an axis is the accumulated delta of the axis divided by the
  elapsed time of the timing window scaled by 0.008, and 0 (no division) where the
  accumulated delta is 0; its step budget is 20 divided by the scaled time. The divisions
  are those of the source: where the scaled time is not 0 they are the quotients of real
  numbers, and then the first tick of the fling adds to the offset of an axis that the
  scroll type permits, and whose delta exceeds 1 in magnitude, that delta divided by the
  step budget. In the drag \<open>flingDrag\<close> the accumulated delta is 100 and the window
  250 ms: the delta to travel is 50 and the budget 10; after \<open>k\<close> ticks, up to 10, the
  offset has moved by \<open>50 (1 - 0.9\<^sup>k)\<close>, that is by 5, 4.5, 4.05 and so on; the interval is
  live after 9 ticks and cleared by the 10th.
\<close>

theorem release_velocity:
  assumes "continuousMode cfg"
    and "\<not> totalDelta (run cfg d (newState l t) acts) < minimum cfg"
  shows "(let s = run cfg d (newState l t) acts;
              scaled = (timeStamp ev - lastStart s) * (8 / 1000);
              s' = onEnd cfg ev s
          in scrollInterval s' = Some (nextTimer s)
           \<and> (\<exists>f. timers s' (nextTimer s) = Some (Interval f)
                 \<and> fl_element f = element s \<and> fl_count f = 0
                 \<and> fl_x f = (if lastDeltaX s = 0 then Fin 0
                              else js_divide (Fin (lastDeltaX s)) (Fin scaled))
                 \<and> fl_y f = (if lastDeltaY s = 0 then Fin 0
                              else js_divide (Fin (lastDeltaY s)) (Fin scaled))
                 \<and> fl_time f = js_divide (Fin 20) (Fin scaled)
                 \<and> (scaled \<noteq> 0 \<longrightarrow>
                      fl_x f = Fin (lastDeltaX s / scaled) \<and> fl_y f = Fin (lastDeltaY s / scaled)
                      \<and> fl_time f = Fin (20 / scaled)))
           \<and> (\<forall>el. element s = Some el \<and> scaled \<noteq> 0 \<longrightarrow>
                 scrollLeft (fire cfg (nextTimer s) s') el =
                   (if 1 < \<bar>lastDeltaX s / scaled\<bar> \<and> touchType cfg \<noteq> VERTICAL
                    then scrollLeft s el + lastDeltaX s / scaled / (20 / scaled)
                    else scrollLeft s el)
                 \<and> scrollTop (fire cfg (nextTimer s) s') el =
                   (if 1 < \<bar>lastDeltaY s / scaled\<bar> \<and> touchType cfg \<noteq> HORIZONTAL
                    then scrollTop s el + lastDeltaY s / scaled / (20 / scaled)
                    else scrollTop s el)))
         \<and> lastDeltaX (run defaultConfig (chainDom 3 0) freshState (take 2 flingDrag)) = 100
         \<and> lastStart (run defaultConfig (chainDom 3 0) freshState (take 2 flingDrag)) = 0
         \<and> flingDrag ! 2 = End (mkEvent 250 0 100 100)
         \<and> timers (run defaultConfig (chainDom 3 0) freshState flingDrag) 1
             = Some (Interval \<lparr> fl_element = Some 0, fl_x = Fin 50, fl_y = Fin 0,
                                  fl_time = Fin 10, fl_count = 0 \<rparr>)
         \<and> (\<forall>k\<le>10. scrollLeft (run defaultConfig (chainDom 3 0) freshState
                                  (flingDrag @ replicate k (Fire 1))) 0
                       - scrollLeft (run defaultConfig (chainDom 3 0) freshState flingDrag) 0
                     = 50 * (1 - (9 / 10) ^ k))
         \<and> isFling (timers (run defaultConfig (chainDom 3 0) freshState
                             (flingDrag @ replicate 9 (Fire 1))) 1)
         \<and> timers (run defaultConfig (chainDom 3 0) freshState
                    (flingDrag @ replicate 10 (Fire 1))) 1 = None"
proof -
  define s where "s = run cfg d (newState l t) acts"
  define scaled where "scaled = (timeStamp ev - lastStart s) * (8 / 1000)"
  define f where "f = \<lparr> fl_element = element s,
      fl_x = (if lastDeltaX s = 0 then Fin 0 else js_divide (Fin (lastDeltaX s)) (Fin scaled)),
      fl_y = (if lastDeltaY s = 0 then Fin 0 else js_divide (Fin (lastDeltaY s)) (Fin scaled)),
      fl_time = js_divide (Fin 20) (Fin scaled), fl_count = 0 \<rparr>"
  have fresh: "handlesFresh s"
    unfolding s_def by (rule handlesFresh_run [OF handlesFresh_newState])
  have qual: "\<not> totalDelta s < minimum cfg"
    using assms(2) by (simp add: s_def)
  have live: "timers (onEnd cfg ev s) (nextTimer s) = Some (Interval f)"
    unfolding f_def scaled_def by (rule onEnd_starts_fling(1) [OF fresh assms(1) qual])
  have cur: "scrollInterval (onEnd cfg ev s) = Some (nextTimer s)"
    by (rule onEnd_starts_fling(2) [OF fresh assms(1) qual])
  have fin: "fl_x f = Fin (lastDeltaX s / scaled) \<and> fl_y f = Fin (lastDeltaY s / scaled)
      \<and> fl_time f = Fin (20 / scaled)" if "scaled \<noteq> 0"
    using that by (simp add: f_def)
  have closure: "\<exists>f. timers (onEnd cfg ev s) (nextTimer s) = Some (Interval f)
            \<and> fl_element f = element s \<and> fl_count f = 0
            \<and> fl_x f = (if lastDeltaX s = 0 then Fin 0
                         else js_divide (Fin (lastDeltaX s)) (Fin scaled))
            \<and> fl_y f = (if lastDeltaY s = 0 then Fin 0
                         else js_divide (Fin (lastDeltaY s)) (Fin scaled))
            \<and> fl_time f = js_divide (Fin 20) (Fin scaled)
            \<and> (scaled \<noteq> 0 \<longrightarrow>
                 fl_x f = Fin (lastDeltaX s / scaled) \<and> fl_y f = Fin (lastDeltaY s / scaled)
                 \<and> fl_time f = Fin (20 / scaled))"
    using live fin by (intro exI [of _ f]) (simp_all add: f_def)
  have first: "\<forall>el. element s = Some el \<and> scaled \<noteq> 0 \<longrightarrow>
        scrollLeft (fire cfg (nextTimer s) (onEnd cfg ev s)) el =
          (if 1 < \<bar>lastDeltaX s / scaled\<bar> \<and> touchType cfg \<noteq> VERTICAL
           then scrollLeft s el + lastDeltaX s / scaled / (20 / scaled)
           else scrollLeft s el)
        \<and> scrollTop (fire cfg (nextTimer s) (onEnd cfg ev s)) el =
          (if 1 < \<bar>lastDeltaY s / scaled\<bar> \<and> touchType cfg \<noteq> HORIZONTAL
           then scrollTop s el + lastDeltaY s / scaled / (20 / scaled)
           else scrollTop s el)"
    unfolding scaled_def
    using onEnd_first_tick [OF fresh assms(1) qual, of _ ev] by blast
  have general: "(let s = run cfg d (newState l t) acts;
              scaled = (timeStamp ev - lastStart s) * (8 / 1000);
              s' = onEnd cfg ev s
          in scrollInterval s' = Some (nextTimer s)
           \<and> (\<exists>f. timers s' (nextTimer s) = Some (Interval f)
                 \<and> fl_element f = element s \<and> fl_count f = 0
                 \<and> fl_x f = (if lastDeltaX s = 0 then Fin 0
                              else js_divide (Fin (lastDeltaX s)) (Fin scaled))
                 \<and> fl_y f = (if lastDeltaY s = 0 then Fin 0
                              else js_divide (Fin (lastDeltaY s)) (Fin scaled))
                 \<and> fl_time f = js_divide (Fin 20) (Fin scaled)
                 \<and> (scaled \<noteq> 0 \<longrightarrow>
                      fl_x f = Fin (lastDeltaX s / scaled) \<and> fl_y f = Fin (lastDeltaY s / scaled)
                      \<and> fl_time f = Fin (20 / scaled)))
           \<and> (\<forall>el. element s = Some el \<and> scaled \<noteq> 0 \<longrightarrow>
                 scrollLeft (fire cfg (nextTimer s) s') el =
                   (if 1 < \<bar>lastDeltaX s / scaled\<bar> \<and> touchType cfg \<noteq> VERTICAL
                    then scrollLeft s el + lastDeltaX s / scaled / (20 / scaled)
                    else scrollLeft s el)
                 \<and> scrollTop (fire cfg (nextTimer s) s') el =
                   (if 1 < \<bar>lastDeltaY s / scaled\<bar> \<and> touchType cfg \<noteq> HORIZONTAL
                    then scrollTop s el + lastDeltaY s / scaled / (20 / scaled)
                    else scrollTop s el)))"
    unfolding Let_def s_def [symmetric] scaled_def [symmetric]
    using cur closure first by (intro conjI)
  have third: "flingDrag ! 2 = End (mkEvent 250 0 100 100)"
    by (simp add: flingDrag_def)
  have ticks: "\<forall>k\<le>10. scrollLeft (run defaultConfig (chainDom 3 0) freshState
                                  (flingDrag @ replicate k (Fire 1))) 0
                       - scrollLeft (run defaultConfig (chainDom 3 0) freshState flingDrag) 0
                     = 50 * (1 - (9 / 10) ^ k)"
  proof (intro allI impI)
    fix k :: nat
    assume "k \<le> 10"
    then show "scrollLeft (run defaultConfig (chainDom 3 0) freshState
                                  (flingDrag @ replicate k (Fire 1))) 0
                       - scrollLeft (run defaultConfig (chainDom 3 0) freshState flingDrag) 0
                     = 50 * (1 - (9 / 10) ^ k)"
      unfolding flingDrag_state(3) using flingDrag_decay [of k] by simp
  qed
  show ?thesis
    using general third flingDrag_before_release(1,3) flingDrag_state(1) ticks flingDrag_ticks
    by blast
qed

theorem release_velocity_witness:
  "continuousMode defaultConfig
   \<and> \<not> totalDelta (run defaultConfig (chainDom 3 0) freshState (take 2 flingDrag))
         < minimum defaultConfig
   \<and> timers (onEnd defaultConfig (mkEvent 250 0 100 100)
         (run defaultConfig (chainDom 3 0) freshState (take 2 flingDrag))) 1
       = Some (Interval \<lparr> fl_element = Some 0, fl_x = Fin 50, fl_y = Fin 0, fl_time = Fin 10,
                            fl_count = 0 \<rparr>)
   \<and> scrollLeft (run defaultConfig (chainDom 3 0) freshState (take 2 flingDrag)) 0 = 100
   \<and> scrollLeft (fire defaultConfig 1 (onEnd defaultConfig (mkEvent 250 0 100 100)
         (run defaultConfig (chainDom 3 0) freshState (take 2 flingDrag)))) 0 = 105
   \<and> scrollLeft (run defaultConfig (chainDom 3 0) freshState (flingDrag @ replicate 2 (Fire 1))) 0
       - scrollLeft (run defaultConfig (chainDom 3 0) freshState flingDrag) 0 = 19 / 2"
proof -
  let ?s = "run defaultConfig (chainDom 3 0) freshState (take 2 flingDrag)"
  let ?ev = "mkEvent 250 0 100 100"
  have c: "continuousMode defaultConfig"
    by (simp add: defaultConfig_def newConfig_def)
  have both: "touchType defaultConfig = BOTH"
    by (simp add: defaultConfig_def newConfig_def)
  have q: "\<not> totalDelta (run defaultConfig (chainDom 3 0) (newState (\<lambda>e. 0) (\<lambda>e. 0))
      (take 2 flingDrag)) < minimum defaultConfig"
    using flingDrag_before_release(4)
    by (simp add: freshState_def [symmetric] defaultConfig_def newConfig_def)
  have scaled: "(timeStamp ?ev - lastStart ?s) * (8 / 1000) = 2"
    by (simp add: flingDrag_before_release mkEvent_def)
  have left: "scrollLeft ?s 0 = 100" by code_simp
  note t = release_velocity [OF c q, of ?ev]
  note g = t [THEN conjunct1, folded freshState_def, unfolded Let_def]
  from g [THEN conjunct2, THEN conjunct1]
  obtain f where f: "timers (onEnd defaultConfig ?ev ?s) (nextTimer ?s) = Some (Interval f)"
    "fl_element f = element ?s" "fl_count f = 0"
    "(timeStamp ?ev - lastStart ?s) * (8 / 1000) \<noteq> 0 \<longrightarrow>
       fl_x f = Fin (lastDeltaX ?s / ((timeStamp ?ev - lastStart ?s) * (8 / 1000)))
       \<and> fl_y f = Fin (lastDeltaY ?s / ((timeStamp ?ev - lastStart ?s) * (8 / 1000)))
       \<and> fl_time f = Fin (20 / ((timeStamp ?ev - lastStart ?s) * (8 / 1000)))"
    by blast
  have "fl_x f = Fin 50" "fl_y f = Fin 0" "fl_time f = Fin 10" "fl_element f = Some 0"
    using f(2,4) unfolding scaled by (simp_all add: flingDrag_before_release)
  then have "f = \<lparr> fl_element = Some 0, fl_x = Fin 50, fl_y = Fin 0, fl_time = Fin 10,
      fl_count = 0 \<rparr>"
    using f(3) by (intro fling.equality) simp_all
  then have closure: "timers (onEnd defaultConfig ?ev ?s) 1
      = Some (Interval \<lparr> fl_element = Some 0, fl_x = Fin 50, fl_y = Fin 0, fl_time = Fin 10,
                           fl_count = 0 \<rparr>)"
    using f(1) unfolding flingDrag_before_release(6) by simp
  have pre: "element ?s = Some 0 \<and> (timeStamp ?ev - lastStart ?s) * (8 / 1000) \<noteq> 0"
    unfolding scaled by (simp add: flingDrag_before_release(5))
  from g [THEN conjunct2, THEN conjunct2, rule_format, OF pre, THEN conjunct1]
  have first: "scrollLeft (fire defaultConfig 1 (onEnd defaultConfig ?ev ?s)) 0 = 105"
    unfolding scaled flingDrag_before_release(1,6) left by (simp add: both)
  have "(2::nat) \<le> 10" by simp
  from t [THEN conjunct2, THEN conjunct2, THEN conjunct2, THEN conjunct2, THEN conjunct2,
      THEN conjunct1,
      rule_format, OF this]
  have two: "scrollLeft (run defaultConfig (chainDom 3 0) freshState (flingDrag @ replicate 2 (Fire 1))) 0
       - scrollLeft (run defaultConfig (chainDom 3 0) freshState flingDrag) 0 = 19 / 2"
    by (simp add: power2_eq_square)
  show ?thesis
    using c q [folded freshState_def] closure left first two by blast
qed

subsection \<open>Move events\<close>

lemma getDelta_zero: "getDelta cfg 0 = 0"
  by (simp add: getDelta_def)

lemma scrollBy_zero: "scrollBy cfg 0 0 s = s"
  by (simp add: scrollBy_def getDelta_zero split: option.split TouchTypes.split)

lemma scrollBy_fields:
  "element (scrollBy cfg x y s) = element s" "lastX (scrollBy cfg x y s) = lastX s"
  "lastY (scrollBy cfg x y s) = lastY s" "totalDelta (scrollBy cfg x y s) = totalDelta s"
  "lastStart (scrollBy cfg x y s) = lastStart s" "lastDeltaX (scrollBy cfg x y s) = lastDeltaX s"
  "lastDeltaY (scrollBy cfg x y s) = lastDeltaY s" "scrolling (scrollBy cfg x y s) = scrolling s"
  "moveListeners (scrollBy cfg x y s) = moveListeners s"
  "defaultPrevented (scrollBy cfg x y s) = defaultPrevented s"
  by (simp_all add: scrollBy_def split: option.split TouchTypes.split)

text \<open>What \<^verbatim>\<open>onMove\<close> does to the fields of the instance when an element is set.\<close>

lemma onMove_fields:
  assumes "element s \<noteq> None"
  shows "element (onMove cfg ev s) = element s"
    and "lastX (onMove cfg ev s) = clientX ev" and "lastY (onMove cfg ev s) = clientY ev"
    and "totalDelta (onMove cfg ev s)
          = totalDelta s + (\<bar>lastX s - clientX ev\<bar> + \<bar>lastY s - clientY ev\<bar>)"
    and "scrolling (onMove cfg ev s) = (scrolling s \<or> minimum cfg < totalDelta (onMove cfg ev s))"
    and "moveListeners (onMove cfg ev s) = moveListeners s"
    and "defaultPrevented (onMove cfg ev s)"
  using assms by (auto simp: onMove_def Let_def scrollBy_fields)

lemma onMove_window:
  assumes "element s \<noteq> None"
  shows "lastStart (onMove cfg ev s) =
      (if minimum cfg < totalDelta (onMove cfg ev s) \<and> continuousMode cfg
          \<and> 200 < timeStamp ev - lastStart s then timeStamp ev else lastStart s)"
    and "lastDeltaX (onMove cfg ev s) =
      (if minimum cfg < totalDelta (onMove cfg ev s) \<and> continuousMode cfg
       then (if 200 < timeStamp ev - lastStart s then 0
             else lastDeltaX s + getDelta cfg (lastX s - clientX ev))
       else lastDeltaX s)"
    and "lastDeltaY (onMove cfg ev s) =
      (if minimum cfg < totalDelta (onMove cfg ev s) \<and> continuousMode cfg
       then (if 200 < timeStamp ev - lastStart s then 0
             else lastDeltaY s + getDelta cfg (lastY s - clientY ev))
       else lastDeltaY s)"
  using assms by (auto simp: onMove_def Let_def scrollBy_fields)

text \<open>
  Every start event that finds an element registers one more move listener, and a move
  event runs \<^verbatim>\<open>onMove\<close> once per listener. The second and later runs for one event see
  a zero delta and change nothing.
\<close>

lemma onMove_idem: "onMove cfg ev (onMove cfg ev s) = onMove cfg ev s"
proof (cases "element s")
  case None
  then show ?thesis by (simp add: onMove_def)
next
  case (Some el)
  define s' where "s' = onMove cfg ev s"
  have el: "element s \<noteq> None" using Some by simp
  have el': "element s' \<noteq> None"
    using onMove_fields(1) [OF el, of cfg ev] Some by (simp add: s'_def)
  have same: "lastX s' = clientX ev" "lastY s' = clientY ev"
    by (simp_all add: s'_def onMove_fields [OF el])
  have dp: "defaultPrevented s'" by (simp add: s'_def onMove_fields [OF el])
  have sc: "minimum cfg < totalDelta s' \<Longrightarrow> scrolling s'"
    by (simp add: s'_def onMove_fields(5) [OF el])
  have win: "minimum cfg < totalDelta s' \<Longrightarrow> continuousMode cfg \<Longrightarrow>
      \<not> 200 < timeStamp ev - lastStart s'"
    by (simp add: s'_def onMove_window(1) [OF el])
  have "onMove cfg ev s' = s'"
    using el' same dp sc win
    by (auto simp: onMove_def [of cfg ev s'] Let_def scrollBy_zero getDelta_zero)
  then show ?thesis by (simp add: s'_def)
qed

lemma fold_onMove:
  "fold (\<lambda>l. onMove cfg ev) ls s = (if ls = [] then s else onMove cfg ev s)"
proof (induction ls arbitrary: s)
  case Nil
  show ?case by simp
next
  case (Cons l ls)
  show ?case using Cons.IH [of "onMove cfg ev s"] by (simp add: onMove_idem)
qed

lemma dispatchMove_eq:
  "dispatchMove cfg ev s = (if moveListeners s = [] then s else onMove cfg ev s)"
  by (simp add: dispatchMove_def fold_onMove)

lemma onStart_found:
  assumes "findScrollable cfg d (target ev) 0 \<noteq> None"
  shows "element (onStart cfg d ev s) = findScrollable cfg d (target ev) 0"
    and "totalDelta (onStart cfg d ev s) = 0"
    and "lastStart (onStart cfg d ev s) = (if continuousMode cfg then timeStamp ev else lastStart s)"
    and "lastX (onStart cfg d ev s) = clientX ev" and "lastY (onStart cfg d ev s) = clientY ev"
    and "lastDeltaX (onStart cfg d ev s) = lastDeltaX s"
    and "lastDeltaY (onStart cfg d ev s) = lastDeltaY s"
    and "scrolling (onStart cfg d ev s) = scrolling s"
    and "moveListeners (onStart cfg d ev s) = moveListeners s @ [nextFunction s]"
  using assms by (auto simp: onStart_def Let_def addMoveEvent_def)

lemma dragInv_start:
  assumes "lastDeltaX s = 0" and "lastDeltaY s = 0"
    and "findScrollable cfg d (target ev) 0 \<noteq> None"
  shows "dragInv cfg (timeStamp ev) (step cfg d s (Start ev))"
  using assms(1,2) assms(3)
  by (simp add: dragInv_def onStart_found [OF assms(3)])

lemma step_Move:
  assumes "element s \<noteq> None" and "moveListeners s \<noteq> []"
  shows "step cfg d s (Move ev) = onMove cfg ev (s\<lparr> defaultPrevented := False \<rparr>)"
  using assms by (simp add: dispatchMove_eq)

lemma dragInv_move:
  assumes inv: "dragInv cfg T s" and le: "T \<le> timeStamp ev"
  shows "dragInv cfg (timeStamp ev) (step cfg d s (Move ev))"
proof -
  let ?s = "s\<lparr> defaultPrevented := False \<rparr>"
  have el: "element ?s \<noteq> None" using inv by (simp add: dragInv_def)
  have st: "step cfg d s (Move ev) = onMove cfg ev ?s"
    using inv by (intro step_Move) (simp_all add: dragInv_def)
  have grow: "totalDelta ?s \<le> totalDelta (onMove cfg ev ?s)"
    by (simp add: onMove_fields(4) [OF el])
  show ?thesis
    unfolding st dragInv_def
    using inv le grow
    by (auto simp: dragInv_def onMove_fields [OF el] onMove_window [OF el])
qed

lemma dragInv_moves:
  assumes "dragInv cfg T s" and "sorted (T # map timeStamp ms)"
  shows "dragInv cfg (last (T # map timeStamp ms)) (run cfg d s (map Move ms))"
  using assms
proof (induction ms arbitrary: T s)
  case Nil
  then show ?case by (simp add: run_def)
next
  case (Cons m ms)
  have le: "T \<le> timeStamp m" and srt: "sorted (timeStamp m # map timeStamp ms)"
    using Cons.prems(2) by simp_all
  have "dragInv cfg (timeStamp m) (step cfg d s (Move m))"
    using Cons.prems(1) le by (rule dragInv_move)
  from Cons.IH [OF this srt] show ?case by (simp add: run_def)
qed

lemma dragInv_pause:
  assumes inv: "dragInv cfg T s" and gap: "200 < timeStamp ev - T"
  shows "lastDeltaX (step cfg d s (Move ev)) = 0 \<and> lastDeltaY (step cfg d s (Move ev)) = 0"
proof -
  let ?s = "s\<lparr> defaultPrevented := False \<rparr>"
  have el: "element ?s \<noteq> None" using inv by (simp add: dragInv_def)
  have st: "step cfg d s (Move ev) = onMove cfg ev ?s"
    using inv by (intro step_Move) (simp_all add: dragInv_def)
  have grow: "totalDelta ?s \<le> totalDelta (onMove cfg ev ?s)"
    by (simp add: onMove_fields(4) [OF el])
  show ?thesis
    unfolding st
    using inv gap grow
    by (auto simp: dragInv_def onMove_window [OF el])
qed

lemma moves_summary:
  assumes "element s \<noteq> None" and "moveListeners s \<noteq> []"
  shows "totalDelta s \<le> totalDelta (run cfg d s (map Move ms))
       \<and> element (run cfg d s (map Move ms)) = element s
       \<and> (scrolling (run cfg d s (map Move ms))
            \<longleftrightarrow> scrolling s \<or> ms \<noteq> [] \<and> minimum cfg < totalDelta (run cfg d s (map Move ms)))"
  using assms
proof (induction ms arbitrary: s)
  case Nil
  then show ?case by (simp add: run_def)
next
  case (Cons m ms)
  let ?s0 = "s\<lparr> defaultPrevented := False \<rparr>"
  let ?s1 = "step cfg d s (Move m)"
  have el: "element ?s0 \<noteq> None" using Cons.prems by simp
  have st: "?s1 = onMove cfg m ?s0"
    using Cons.prems by (intro step_Move)
  have one: "totalDelta s \<le> totalDelta ?s1" "element ?s1 = element s"
    "moveListeners ?s1 = moveListeners s"
    "scrolling ?s1 \<longleftrightarrow> scrolling s \<or> minimum cfg < totalDelta ?s1"
    unfolding st by (simp_all add: onMove_fields [OF el])
  have r: "run cfg d s (map Move (m # ms)) = run cfg d ?s1 (map Move ms)"
    by (simp add: run_def)
  have pre: "element ?s1 \<noteq> None" "moveListeners ?s1 \<noteq> []"
    using one Cons.prems by simp_all
  have nil: "run cfg d ?s1 [] = ?s1" by (simp add: run_def)
  from Cons.IH [OF pre] show ?case
    unfolding r using one nil by (cases ms) auto
qed






subsection \<open>The velocity accumulator\<close>

lemma scheduleStop_accumulator:
  "lastDeltaX (scheduleStop s) = lastDeltaX s" "lastDeltaY (scheduleStop s) = lastDeltaY s"
  by (simp_all add: scheduleStop_def Let_def clearTimer_def split: option.split)

lemma releaseFling_accumulator:
  "lastDeltaX (releaseFling ev s) = 0" "lastDeltaY (releaseFling ev s) = 0"
  by (simp_all add: releaseFling_def Let_def)

lemma onEnd_accumulator:
  "lastDeltaX (onEnd cfg ev s) =
     (if totalDelta s < minimum cfg \<or> \<not> continuousMode cfg then lastDeltaX s else 0)"
  "lastDeltaY (onEnd cfg ev s) =
     (if totalDelta s < minimum cfg \<or> \<not> continuousMode cfg then lastDeltaY s else 0)"
  by (simp_all add: onEnd_def Let_def removeMoveEvent_def scheduleStop_accumulator
      releaseFling_accumulator)

lemma drag_tracks:
  assumes "lastDeltaX s0 = 0" and "lastDeltaY s0 = 0"
    and "findScrollable cfg d (target e0) 0 \<noteq> None"
    and "sorted (map timeStamp (e0 # ms))"
  shows "dragInv cfg (last (map timeStamp (e0 # ms))) (run cfg d s0 (Start e0 # map Move ms))"
proof -
  have "dragInv cfg (timeStamp e0) (step cfg d s0 (Start e0))"
    using assms(1-3) by (rule dragInv_start)
  moreover have "sorted (timeStamp e0 # map timeStamp ms)"
    using assms(4) by simp
  ultimately have "dragInv cfg (last (timeStamp e0 # map timeStamp ms))
      (run cfg d (step cfg d s0 (Start e0)) (map Move ms))"
    by (rule dragInv_moves)
  then show ?thesis by (simp add: run_def)
qed

text \<open>
  A drag that begins with an empty accumulator and is ended by an end event leaves the
  accumulator empty. A move event that is handled after the end event, while the element
  is still set, can fill it again.
\<close>

lemma drag_leaves_accumulator_empty:
  assumes "lastDeltaX s0 = 0" and "lastDeltaY s0 = 0"
    and "findScrollable cfg d (target e0) 0 \<noteq> None"
    and "sorted (map timeStamp (e0 # ms))"
  shows "lastDeltaX (run cfg d s0 (Start e0 # map Move ms @ [End e])) = 0
       \<and> lastDeltaY (run cfg d s0 (Start e0 # map Move ms @ [End e])) = 0"
proof -
  let ?s = "run cfg d s0 (Start e0 # map Move ms)"
  have inv: "dragInv cfg (last (map timeStamp (e0 # ms))) ?s"
    using assms by (rule drag_tracks)
  have "run cfg d s0 (Start e0 # map Move ms @ [End e])
      = onEnd cfg e (?s\<lparr> defaultPrevented := False \<rparr>)"
    by (simp add: run_def)
  then show ?thesis
    using inv by (auto simp: onEnd_accumulator dragInv_def)
qed










subsection \<open>The active element and the phases\<close>

lemma fst_runPhase: "fst (runPhase cfg d sp acts) = run cfg d (fst sp) acts"
  unfolding runPhase_def run_def
  by (induction acts arbitrary: sp) simp_all

lemma intervalHandle_same:
  "intervalHandle s \<Longrightarrow> timers s' = timers s \<Longrightarrow> scrollInterval s' = scrollInterval s \<Longrightarrow>
   intervalHandle s'"
  by (simp add: intervalHandle_def)

lemma intervalHandle_clearTimer: "intervalHandle s \<Longrightarrow> intervalHandle (clearTimer h s)"
  by (simp add: intervalHandle_def clearTimer_def)

lemma intervalHandle_smoothScrollBy: "intervalHandle (smoothScrollBy el x y t s)"
  by (simp add: intervalHandle_def smoothScrollBy_fields)

lemma intervalHandle_releaseFling: "intervalHandle (releaseFling ev s)"
  by (simp add: intervalHandle_def releaseFling_fields)

lemma intervalHandle_scheduleStop:
  assumes "intervalHandle s" and "handlesFresh s"
  shows "intervalHandle (scheduleStop s)"
proof -
  define s1 where "s1 = (case stopTimeout s of None \<Rightarrow> s | Some h \<Rightarrow> clearTimer h s)"
  have s1: "intervalHandle s1" "handlesFresh s1"
    using assms
    by (cases "stopTimeout s"; simp add: s1_def intervalHandle_clearTimer handlesFresh_clearTimer)+
  have "scheduleStop s =
      s1\<lparr> scrolling := False, timers := (timers s1)(nextTimer s1 \<mapsto> Timeout),
           nextTimer := nextTimer s1 + 1, stopTimeout := Some (nextTimer s1) \<rparr>"
    unfolding scheduleStop_def s1_def [symmetric] by (simp add: Let_def)
  moreover have "scrollInterval s1 \<noteq> Some (nextTimer s1)"
    using s1(2) by (auto simp: handlesFresh_def)
  ultimately show ?thesis
    using s1(1) by (auto simp: intervalHandle_def)
qed

lemma intervalHandle_onEnd:
  assumes "intervalHandle s" and "handlesFresh s"
  shows "intervalHandle (onEnd cfg ev s)"
proof -
  have s1: "intervalHandle (removeMoveEvent s)"
    using assms(1) by (rule intervalHandle_same) (simp_all add: removeMoveEvent_def)
  then have tap: "intervalHandle ((removeMoveEvent s)\<lparr> element := None, scrolling := False \<rparr>)"
    by (rule intervalHandle_same) simp_all
  have s2: "intervalHandle ((removeMoveEvent s)\<lparr> defaultPrevented := True \<rparr>)"
    using s1 by (rule intervalHandle_same) simp_all
  have f1: "handlesFresh (removeMoveEvent s)"
    using assms(2) by (rule handlesFresh_same) (simp_all add: removeMoveEvent_def)
  have f2: "handlesFresh ((removeMoveEvent s)\<lparr> defaultPrevented := True \<rparr>)"
    using f1 by (rule handlesFresh_same) simp_all
  show ?thesis
    unfolding onEnd_def Let_def
    using tap s2 f2
    by (simp add: intervalHandle_scheduleStop intervalHandle_releaseFling handlesFresh_releaseFling)
qed

lemma intervalHandle_stopCallback: "intervalHandle s \<Longrightarrow> intervalHandle (stopCallback s)"
proof -
  assume a: "intervalHandle s"
  define s1 where "s1 = (case stopTimeout s of None \<Rightarrow> s | Some h \<Rightarrow> clearTimer h s)"
  have "intervalHandle s1"
    using a by (cases "stopTimeout s") (simp_all add: s1_def intervalHandle_clearTimer)
  then have "intervalHandle (s1\<lparr> element := None, scrolling := False \<rparr>)"
    by (rule intervalHandle_same) simp_all
  then show ?thesis
    unfolding stopCallback_def s1_def [symmetric] by (simp add: Let_def)
qed

lemma intervalHandle_clearScrollInterval:
  "intervalHandle s \<Longrightarrow> intervalHandle (clearScrollInterval s)"
  by (cases "scrollInterval s") (simp_all add: clearScrollInterval_def intervalHandle_clearTimer)

lemma intervalHandle_tick:
  assumes "intervalHandle s"
  shows "intervalHandle (tick cfg h f s)"
proof (cases "fl_element f")
  case None
  then show ?thesis using assms by (simp add: tick_def intervalHandle_clearScrollInterval)
next
  case (Some el)
  let ?fs = "tickY cfg el (tickX cfg el (f, s))"
  have t: "timers (snd ?fs) = timers s" "scrollInterval (snd ?fs) = scrollInterval s"
    by (simp_all add: tickY_timers tickX_timers)
  have "intervalHandle ((snd ?fs)\<lparr> timers := (timers (snd ?fs))(h \<mapsto> Interval g) \<rparr>)" for g
    using assms t by (auto simp: intervalHandle_def)
  then show ?thesis
    using Some by (simp add: tick_def Let_def intervalHandle_clearScrollInterval)
qed

lemma intervalHandle_fire: "intervalHandle s \<Longrightarrow> intervalHandle (fire cfg h s)"
  by (simp add: fire_def intervalHandle_tick intervalHandle_stopCallback
      intervalHandle_clearTimer split: option.split timer.split)

lemma intervalHandle_step:
  assumes "intervalHandle s" and "handlesFresh s"
  shows "intervalHandle (step cfg d s a)"
proof -
  have p: "intervalHandle (s\<lparr> defaultPrevented := False \<rparr>)"
    using assms(1) by (rule intervalHandle_same) simp_all
  have q: "handlesFresh (s\<lparr> defaultPrevented := False \<rparr>)"
    using assms(2) by (rule handlesFresh_same) simp_all
  show ?thesis
  proof (cases a)
    case (Start ev)
    show ?thesis
      unfolding Start step.simps using p
      by (rule intervalHandle_same) (simp_all add: onStart_timers)
  next
    case (Move ev)
    show ?thesis
      unfolding Move step.simps using p
      by (rule intervalHandle_same) (simp_all add: dispatchMove_timers)
  next
    case (End ev)
    show ?thesis unfolding End step.simps using p q by (rule intervalHandle_onEnd)
  next
    case (Fire h)
    show ?thesis unfolding Fire step.simps using assms(1) by (rule intervalHandle_fire)
  qed
qed

lemma onStart_element: "element (onStart cfg d ev s) = findScrollable cfg d (target ev) 0"
  by (simp add: onStart_def Let_def addMoveEvent_def)

lemma onMove_element: "element (onMove cfg ev s) = element s"
  by (cases "element s") (simp_all add: onMove_def Let_def scrollBy_fields)

lemma dispatchMove_element: "element (dispatchMove cfg ev s) = element s"
  by (simp add: dispatchMove_eq onMove_element)

lemma settlePending_same:
  "timers s' = timers s \<Longrightarrow> stopTimeout s' = stopTimeout s \<Longrightarrow>
   settlePending s' = settlePending s"
  by (simp add: settlePending_def split: option.split)

lemma settlePending_scheduleStop: "settlePending (scheduleStop s)"
  by (simp add: settlePending_def scheduleStop_def Let_def)

lemma onEnd_element_or_pending:
  "(totalDelta s < minimum cfg \<longrightarrow> element (onEnd cfg ev s) = None)
   \<and> (\<not> totalDelta s < minimum cfg \<longrightarrow> settlePending (onEnd cfg ev s))"
  by (simp add: onEnd_def Let_def removeMoveEvent_fields settlePending_scheduleStop)

lemma stopCallback_element: "element (stopCallback s) = None"
  by (simp add: stopCallback_def Let_def)

lemma tick_element: "element (tick cfg h f s) = element s"
proof (cases "fl_element f")
  case None
  then show ?thesis by (simp add: tick_def clearScrollInterval_fields)
next
  case (Some el)
  have "element (snd (tickX cfg el (f, s))) = element s"
    by (simp add: tickX_snd)
  then have "element (snd (tickY cfg el (tickX cfg el (f, s)))) = element s"
    by (cases "tickX cfg el (f, s)") (simp add: tickY_snd)
  then show ?thesis
    using Some by (simp add: tick_def Let_def clearScrollInterval_fields)
qed

lemma tick_stopTimeout: "stopTimeout (tick cfg h f s) = stopTimeout s"
proof (cases "fl_element f")
  case None
  then show ?thesis
    by (simp add: tick_def clearScrollInterval_def clearTimer_def split: option.split)
next
  case (Some el)
  then show ?thesis
    by (simp add: tick_def Let_def clearScrollInterval_def clearTimer_def tickX_handles
        tickY_handles split: option.split)
qed

lemma clearScrollInterval_other:
  "scrollInterval s \<noteq> Some k \<Longrightarrow> timers (clearScrollInterval s) k = timers s k"
  by (simp add: clearScrollInterval_def clearTimer_def split: option.split)

lemma tick_timers_other:
  assumes "k \<noteq> h" and "scrollInterval s \<noteq> Some k"
  shows "timers (tick cfg h f s) k = timers s k"
proof (cases "fl_element f")
  case None
  then show ?thesis using assms(2) by (simp add: tick_def clearScrollInterval_other)
next
  case (Some el)
  let ?fs = "tickY cfg el (tickX cfg el (f, s))"
  let ?s1 = "(snd ?fs)\<lparr> timers := (timers (snd ?fs))(h \<mapsto> Interval (tickedFling cfg f)) \<rparr>"
  have eq: "tick cfg h f s = (if js_count_ge (fl_count f + 1) (fl_time f)
      then clearScrollInterval ?s1 else ?s1)"
    using Some tick_closure [of cfg el f s] by (simp add: tick_def Let_def tick_fst_fields)
  have "scrollInterval ?s1 \<noteq> Some k"
    using assms(2) by (simp add: tickX_timers tickY_timers)
  then have "timers (clearScrollInterval ?s1) k = timers ?s1 k"
    by (rule clearScrollInterval_other)
  moreover have "timers ?s1 k = timers s k"
    using assms(1) by (simp add: tickX_timers tickY_timers)
  ultimately show ?thesis unfolding eq by simp
qed

lemma tick_settlePending:
  assumes "intervalHandle s" and "timers s h = Some (Interval f)" and "settlePending s"
  shows "settlePending (tick cfg h f s)"
proof -
  from assms(3) obtain k where k: "stopTimeout s = Some k" "timers s k = Some Timeout"
    by (auto simp: settlePending_def split: option.splits)
  have "k \<noteq> h" using k(2) assms(2) by auto
  moreover have "scrollInterval s \<noteq> Some k"
    using assms(1) k(2) by (auto simp: intervalHandle_def)
  ultimately have "timers (tick cfg h f s) k = Some Timeout"
    using k(2) by (simp add: tick_timers_other)
  then show ?thesis
    using k(1) by (simp add: settlePending_def tick_stopTimeout)
qed

lemma fire_element_or_pending:
  assumes "intervalHandle s" and "element (fire cfg h s) \<noteq> None"
  shows "element s \<noteq> None \<and> (settlePending s \<longrightarrow> settlePending (fire cfg h s))"
proof (cases "timers s h")
  case None
  then show ?thesis using assms(2) by (simp add: fire_def)
next
  case (Some t)
  show ?thesis
  proof (cases t)
    case Timeout
    then show ?thesis using Some assms(2) by (simp add: fire_def stopCallback_element)
  next
    case (Interval f)
    then have live: "timers s h = Some (Interval f)" using Some by simp
    then show ?thesis
      using assms tick_settlePending [OF assms(1) live, of cfg]
      by (simp add: fire_live tick_element)
  qed
qed

lemma elementPhase_step:
  assumes "phaseInv (s, ph)"
  shows "elementPhase (step cfg d s a, specPhase cfg d s a ph)"
proof -
  have ih: "intervalHandle s" and ep: "element s \<noteq> None \<longrightarrow> ph = Tracking \<or> settlePending s"
    using assms by (simp_all add: phaseInv_def elementPhase_def)
  show ?thesis
  proof (cases a)
    case (Start ev)
    then show ?thesis by (simp add: elementPhase_def onStart_element)
  next
    case (Move ev)
    have "settlePending (dispatchMove cfg ev (s\<lparr> defaultPrevented := False \<rparr>)) = settlePending s"
      by (rule settlePending_same) (simp_all add: dispatchMove_timers dispatchMove_handles)
    then show ?thesis
      using Move ep by (simp add: elementPhase_def dispatchMove_element)
  next
    case (End ev)
    then show ?thesis
      using onEnd_element_or_pending [of "s\<lparr> defaultPrevented := False \<rparr>" cfg ev]
      by (auto simp: elementPhase_def)
  next
    case (Fire h)
    show ?thesis
      unfolding elementPhase_def fst_conv snd_conv
    proof
      assume el: "element (step cfg d s a) \<noteq> None"
      then have "element (fire cfg h s) \<noteq> None" using Fire by simp
      from fire_element_or_pending [OF ih this]
      have "element s \<noteq> None" and keep: "settlePending s \<longrightarrow> settlePending (fire cfg h s)"
        by simp_all
      then have "ph = Tracking \<or> settlePending s" using ep by simp
      then show "specPhase cfg d s a ph = Tracking \<or> settlePending (step cfg d s a)"
        using keep Fire by auto
    qed
  qed
qed

lemma phaseInv_step:
  assumes "phaseInv (s, ph)"
  shows "phaseInv (step cfg d s a, specPhase cfg d s a ph)"
  using assms elementPhase_step [OF assms, of cfg d a]
  by (simp add: phaseInv_def handlesFresh_step intervalHandle_step)

lemma phaseInv_run: "phaseInv sp \<Longrightarrow> phaseInv (runPhase cfg d sp acts)"
  unfolding runPhase_def
proof (induction acts arbitrary: sp)
  case Nil
  then show ?case by simp
next
  case (Cons a acts)
  have "phaseInv (step cfg d (fst sp) a, specPhase cfg d (fst sp) a (snd sp))"
    using Cons.prems phaseInv_step [of "fst sp" "snd sp" cfg d a] by simp
  from Cons.IH [OF this] show ?case by simp
qed

lemma phaseInv_init: "phaseInv (newState l t, Idle)"
proof -
  have "intervalHandle (newState l t)" "elementPhase (newState l t, Idle)"
    by (simp_all add: intervalHandle_def elementPhase_def newState_def)
  then show ?thesis
    by (simp add: phaseInv_def handlesFresh_newState)
qed

lemma flingDrag_phases:
  "snd (runPhase defaultConfig (chainDom 3 0) (freshState, Idle) (take 3 flingDrag)) = Coasting"
  "snd (runPhase defaultConfig (chainDom 3 0) (freshState, Idle) flingDrag) = Coasting"
  "element (fst (runPhase defaultConfig (chainDom 3 0) (freshState, Idle) (take 3 flingDrag))) = Some 0"
  "element (fst (runPhase defaultConfig (chainDom 3 0) (freshState, Idle) flingDrag)) = None"
  "flingRunning (fst (runPhase defaultConfig (chainDom 3 0) (freshState, Idle) flingDrag))"
  "settlePending (fst (runPhase defaultConfig (chainDom 3 0) (freshState, Idle) (take 3 flingDrag)))"
  by code_simp+

lemma run_moves_element: "element (run cfg d s (map Move ms)) = element s"
proof (induction ms arbitrary: s)
  case Nil
  show ?case by (simp add: run_def)
next
  case (Cons m ms)
  have "run cfg d s (map Move (m # ms)) = run cfg d (step cfg d s (Move m)) (map Move ms)"
    by (simp add: run_def)
  then show ?case
    using Cons.IH [of "step cfg d s (Move m)"] by (simp add: dispatchMove_element)
qed

text \<open>
  Claim C5 says that the active element is non-null exactly in the tracking and the
  coasting state. After the drag \<open>flingDrag\<close> is released the controller is coasting;
  the settle timeout fires 1 ms later and sets \<^verbatim>\<open>this.element\<close> to null, while the
  fling, which holds the element in its closure, is still running.
\<close>

theorem coasting_without_element_counterexample:
  "snd (runPhase defaultConfig (chainDom 3 0) (freshState, Idle) flingDrag) = Coasting
   \<and> flingRunning (fst (runPhase defaultConfig (chainDom 3 0) (freshState, Idle) flingDrag))
   \<and> element (fst (runPhase defaultConfig (chainDom 3 0) (freshState, Idle) flingDrag)) = None
   \<and> \<not> specElementInvariant (runPhase defaultConfig (chainDom 3 0) (freshState, Idle) flingDrag)"
proof -
  have "\<not> specElementInvariant (runPhase defaultConfig (chainDom 3 0) (freshState, Idle) flingDrag)"
    unfolding specElementInvariant_def flingDrag_phases by simp
  then show ?thesis
    using flingDrag_phases(2,4,5) by blast
qed

text \<open>
  Claim C5, amended. In every state that a controller reaches from its construction, the
  active element is non-null only in the tracking state or while the settle timeout of the
  latest end event is pending. And a start event that finds a scrollable element makes it
  non-null and begins tracking, whatever the state before, and it stays so through the
  move events that follow.
\<close>

theorem element_phase:
  "(element (fst (runPhase cfg d (newState l t, Idle) acts)) \<noteq> None \<longrightarrow>
      snd (runPhase cfg d (newState l t, Idle) acts) = Tracking
      \<or> settlePending (fst (runPhase cfg d (newState l t, Idle) acts)))
   \<and> (findScrollable cfg d (target e0) 0 \<noteq> None \<longrightarrow>
        element (run cfg d s0 (Start e0 # map Move ms)) \<noteq> None
        \<and> snd (runPhase cfg d (s0, ph) (Start e0 # map Move ms)) = Tracking)"
proof (intro conjI impI)
  assume "element (fst (runPhase cfg d (newState l t, Idle) acts)) \<noteq> None"
  then show "snd (runPhase cfg d (newState l t, Idle) acts) = Tracking
      \<or> settlePending (fst (runPhase cfg d (newState l t, Idle) acts))"
    using phaseInv_run [OF phaseInv_init, of cfg d l t acts]
    by (simp add: phaseInv_def elementPhase_def)
next
  assume found: "findScrollable cfg d (target e0) 0 \<noteq> None"
  have "run cfg d s0 (Start e0 # map Move ms) = run cfg d (step cfg d s0 (Start e0)) (map Move ms)"
    by (simp add: run_def)
  then show "element (run cfg d s0 (Start e0 # map Move ms)) \<noteq> None"
    using found by (simp add: run_moves_element onStart_element)
  have "snd (foldl (\<lambda>sp a. (step cfg d (fst sp) a, specPhase cfg d (fst sp) a (snd sp)))
      (s, Tracking) (map Move ms)) = Tracking" for s
    by (induction ms arbitrary: s) simp_all
  then show "snd (runPhase cfg d (s0, ph) (Start e0 # map Move ms)) = Tracking"
    using found by (simp add: runPhase_def)
qed

theorem element_phase_witness:
  "element (fst (runPhase defaultConfig (chainDom 3 0) (freshState, Idle) (take 3 flingDrag))) = Some 0
   \<and> snd (runPhase defaultConfig (chainDom 3 0) (freshState, Idle) (take 3 flingDrag)) = Coasting
   \<and> settlePending (fst (runPhase defaultConfig (chainDom 3 0) (freshState, Idle) (take 3 flingDrag)))
   \<and> element (run defaultConfig (chainDom 3 0) freshState (take 2 flingDrag)) = Some 0
   \<and> snd (runPhase defaultConfig (chainDom 3 0) (freshState, Idle) (take 2 flingDrag)) = Tracking"
proof -
  let ?sp = "runPhase defaultConfig (chainDom 3 0) (freshState, Idle) (take 3 flingDrag)"
  note th = element_phase [of defaultConfig "chainDom 3 0" "\<lambda>e. 0" "\<lambda>e. 0" "take 3 flingDrag"
      "mkEvent 0 0 200 100" freshState "[mkEvent 50 0 100 100]" Idle, folded freshState_def]
  have found: "findScrollable defaultConfig (chainDom 3 0) (target (mkEvent 0 0 200 100)) 0 \<noteq> None"
    by (simp add: mkEvent_def isScrollable_def defaultConfig_def newConfig_def selectorOf_def
        chainDom_def)
  have t2: "take 2 flingDrag = Start (mkEvent 0 0 200 100) # map Move [mkEvent 50 0 100 100]"
    by (simp add: flingDrag_def)
  have "element (fst ?sp) \<noteq> None" "snd ?sp \<noteq> Tracking"
    by (simp_all add: flingDrag_phases)
  then have pend: "settlePending (fst ?sp)"
    using th [THEN conjunct1] by blast
  have "snd (runPhase defaultConfig (chainDom 3 0) (freshState, Idle) (take 2 flingDrag)) = Tracking"
    unfolding t2 using th [THEN conjunct2] found by blast
  then show ?thesis
    using pend flingDrag_phases(1,3) flingDrag_before_release(5) by blast
qed

subsection \<open>The move listeners\<close>

lemma listenersKnown_same:
  "listenersKnown s \<Longrightarrow> moveListeners s' = moveListeners s \<Longrightarrow> nextFunction s' = nextFunction s \<Longrightarrow>
   listenersKnown s'"
  by (simp add: listenersKnown_def)

lemma removeMoveEvent_noop:
  assumes "listenersKnown s"
  shows "moveListeners (removeMoveEvent s) = moveListeners s"
proof -
  have "nextFunction s \<notin> set (moveListeners s)"
    using assms by (auto simp: listenersKnown_def list_all_iff)
  then show ?thesis by (simp add: removeMoveEvent_def remove1_idem)
qed

lemma scheduleStop_listeners:
  "moveListeners (scheduleStop s) = moveListeners s" "nextFunction (scheduleStop s) = nextFunction s"
  by (simp_all add: scheduleStop_def Let_def clearTimer_def split: option.split)

lemma releaseFling_listeners:
  "moveListeners (releaseFling ev s) = moveListeners s" "nextFunction (releaseFling ev s) = nextFunction s"
  by (simp_all add: releaseFling_def Let_def smoothScrollBy_def clearTimer_def split: option.split)

lemma onEnd_listeners:
  "moveListeners (onEnd cfg ev s) = moveListeners (removeMoveEvent s)"
  "nextFunction (onEnd cfg ev s) = nextFunction s + 1"
  by (simp_all add: onEnd_def Let_def scheduleStop_listeners releaseFling_listeners
      removeMoveEvent_def)

lemma onMove_nextFunction: "nextFunction (onMove cfg ev s) = nextFunction s"
  by (cases "element s")
     (simp_all add: onMove_def Let_def scrollBy_def split: option.split TouchTypes.split)

lemma onMove_listeners: "moveListeners (onMove cfg ev s) = moveListeners s"
  by (cases "element s") (simp_all add: onMove_def Let_def scrollBy_fields)

lemma dispatchMove_listeners:
  "moveListeners (dispatchMove cfg ev s) = moveListeners s"
  "nextFunction (dispatchMove cfg ev s) = nextFunction s"
  by (simp_all add: dispatchMove_eq onMove_listeners onMove_nextFunction)

lemma onStart_listeners:
  "moveListeners (onStart cfg d ev s) =
     (if findScrollable cfg d (target ev) 0 = None then moveListeners s
      else moveListeners s @ [nextFunction s])"
  "nextFunction (onStart cfg d ev s) =
     (if findScrollable cfg d (target ev) 0 = None then nextFunction s else nextFunction s + 1)"
  by (simp_all add: onStart_def Let_def addMoveEvent_def)

lemma fire_listeners:
  "moveListeners (fire cfg h s) = moveListeners s" "nextFunction (fire cfg h s) = nextFunction s"
proof -
  have t: "moveListeners (tick cfg h f s) = moveListeners s \<and> nextFunction (tick cfg h f s) = nextFunction s"
    for f
    by (cases "fl_element f")
       (simp_all add: tick_def Let_def tickX_def tickY_def clearScrollInterval_def
          clearTimer_def split: option.split)
  have c: "moveListeners (stopCallback s') = moveListeners s' \<and> nextFunction (stopCallback s') = nextFunction s'"
    for s'
    by (simp add: stopCallback_def Let_def clearTimer_def split: option.split)
  show "moveListeners (fire cfg h s) = moveListeners s" "nextFunction (fire cfg h s) = nextFunction s"
    using t c by (simp_all add: fire_def clearTimer_def split: option.split timer.split)
qed

lemma listenersKnown_step:
  assumes "listenersKnown s"
  shows "listenersKnown (step cfg d s a)"
proof (cases a)
  case (Start ev)
  then show ?thesis
    using assms by (auto simp: listenersKnown_def onStart_listeners list_all_iff)
next
  case (Move ev)
  then show ?thesis
    using assms by (simp add: listenersKnown_def dispatchMove_listeners)
next
  case (End ev)
  have "listenersKnown (s\<lparr> defaultPrevented := False \<rparr>)"
    using assms by (simp add: listenersKnown_def)
  from removeMoveEvent_noop [OF this] show ?thesis
    using End assms by (auto simp: listenersKnown_def onEnd_listeners list_all_iff)
next
  case (Fire h)
  then show ?thesis
    using assms by (simp add: listenersKnown_def fire_listeners)
qed

lemma listenersKnown_run: "listenersKnown s \<Longrightarrow> listenersKnown (run cfg d s acts)"
  unfolding run_def by (induction acts arbitrary: s) (simp_all add: listenersKnown_step)

lemma listenersKnown_newState: "listenersKnown (newState l t)"
  by (simp add: listenersKnown_def newState_def)

text \<open>In no reachable state does \<^verbatim>\<open>onEnd\<close> remove a move listener.\<close>

lemma onEnd_keeps_listeners:
  "moveListeners (onEnd cfg ev (run cfg d (newState l t) acts))
     = moveListeners (run cfg d (newState l t) acts)"
  using removeMoveEvent_noop [OF listenersKnown_run [OF listenersKnown_newState]]
  by (simp add: onEnd_listeners)

lemma onEnd_below_minimum:
  assumes "totalDelta s < minimum cfg"
  shows "element (onEnd cfg ev s) = None" "\<not> scrolling (onEnd cfg ev s)"
    "timers (onEnd cfg ev s) = timers s" "scrollInterval (onEnd cfg ev s) = scrollInterval s"
    "defaultPrevented (onEnd cfg ev s) = defaultPrevented s"
  using assms by (simp_all add: onEnd_def Let_def removeMoveEvent_def)

lemma onEnd_prevents_default:
  assumes "\<not> totalDelta s < minimum cfg"
  shows "defaultPrevented (onEnd cfg ev s)"
proof -
  have "defaultPrevented (scheduleStop s') = defaultPrevented s'" for s'
    by (simp add: scheduleStop_def Let_def clearTimer_def split: option.split)
  moreover have "defaultPrevented (releaseFling ev s') = defaultPrevented s'" for s'
    by (simp add: releaseFling_def Let_def smoothScrollBy_def clearTimer_def split: option.split)
  ultimately show ?thesis
    using assms by (simp add: onEnd_def Let_def removeMoveEvent_def)
qed

text \<open>
  Claim C8. On an end event whose accumulated distance is below the minimum the
  controller should clear the active element and the scrolling flag, start no fling, stop
  listening to move events and leave the default action alone. All of it happens but the
  removal of the listener: \<^verbatim>\<open>removeMoveEvent\<close> hands \<^verbatim>\<open>removeEventListener\<close> a function
  that \<^verbatim>\<open>bind\<close> has just created, which is not the registered one. After a tap the
  listener that the start event registered is still there, and after a second tap there
  are two.
\<close>

theorem tap_keeps_move_listener:
  "totalDelta (run defaultConfig (chainDom 3 0) freshState (take 1 tap)) < minimum defaultConfig
   \<and> moveListeners (run defaultConfig (chainDom 3 0) freshState (take 1 tap)) = [0]
   \<and> element (run defaultConfig (chainDom 3 0) freshState tap) = None
   \<and> scrolling (run defaultConfig (chainDom 3 0) freshState tap) = False
   \<and> scrollInterval (run defaultConfig (chainDom 3 0) freshState tap) = None
   \<and> defaultPrevented (run defaultConfig (chainDom 3 0) freshState tap) = False
   \<and> moveListeners (run defaultConfig (chainDom 3 0) freshState tap) = [0]
   \<and> moveListeners (run defaultConfig (chainDom 3 0) freshState (tap @ tap)) = [0, 2]"
  by (intro conjI; code_simp)

subsection \<open>The scrolling flag during a drag\<close>

lemma run_moves_listeners: "moveListeners (run cfg d s (map Move ms)) = moveListeners s"
proof (induction ms arbitrary: s)
  case Nil
  show ?case by (simp add: run_def)
next
  case (Cons m ms)
  have "run cfg d s (map Move (m # ms)) = run cfg d (step cfg d s (Move m)) (map Move ms)"
    by (simp add: run_def)
  then show ?case
    using Cons.IH [of "step cfg d s (Move m)"] by (simp add: dispatchMove_listeners)
qed

lemma drag_summary:
  assumes "findScrollable cfg d (target e0) 0 \<noteq> None"
  shows "element (run cfg d s0 (Start e0 # map Move ms)) \<noteq> None"
    and "scrolling (run cfg d s0 (Start e0 # map Move ms))
          \<longleftrightarrow> scrolling s0
              \<or> ms \<noteq> [] \<and> minimum cfg < totalDelta (run cfg d s0 (Start e0 # map Move ms))"
    and "totalDelta (run cfg d s0 (Start e0 # map Move (take k ms)))
          \<le> totalDelta (run cfg d s0 (Start e0 # map Move ms))"
proof -
  let ?s1 = "step cfg d s0 (Start e0)"
  have s1: "element ?s1 \<noteq> None" "moveListeners ?s1 \<noteq> []" "scrolling ?s1 = scrolling s0"
    using assms by (simp_all add: onStart_found [OF assms])
  have r: "run cfg d s0 (Start e0 # map Move xs) = run cfg d ?s1 (map Move xs)" for xs
    by (simp add: run_def)
  show "element (run cfg d s0 (Start e0 # map Move ms)) \<noteq> None"
    unfolding r using moves_summary [OF s1(1,2), of cfg d ms] s1(1) by simp
  show "scrolling (run cfg d s0 (Start e0 # map Move ms))
          \<longleftrightarrow> scrolling s0
              \<or> ms \<noteq> [] \<and> minimum cfg < totalDelta (run cfg d s0 (Start e0 # map Move ms))"
    unfolding r using moves_summary [OF s1(1,2), of cfg d ms] s1(3) by simp
  let ?sk = "run cfg d ?s1 (map Move (take k ms))"
  have sk: "element ?sk \<noteq> None" "moveListeners ?sk \<noteq> []"
    using moves_summary [OF s1(1,2), of cfg d "take k ms"] s1
    by (simp_all add: run_moves_listeners)
  have "run cfg d ?s1 (map Move ms) = run cfg d ?sk (map Move (drop k ms))"
    by (simp add: run_append [symmetric] map_append [symmetric] del: map_append)
  then show "totalDelta (run cfg d s0 (Start e0 # map Move (take k ms)))
          \<le> totalDelta (run cfg d s0 (Start e0 # map Move ms))"
    unfolding r using moves_summary [OF sk, of cfg d "drop k ms"] by simp
qed

lemma run_moves_timers:
  "timers (run cfg d s (map Move ms)) = timers s
   \<and> scrollInterval (run cfg d s (map Move ms)) = scrollInterval s"
proof (induction ms arbitrary: s)
  case Nil
  show ?case by (simp add: run_def)
next
  case (Cons m ms)
  have r: "run cfg d s (map Move (m # ms)) = run cfg d (step cfg d s (Move m)) (map Move ms)"
    by (simp add: run_def)
  show ?case
    unfolding r using Cons.IH [of "step cfg d s (Move m)"] by (simp add: dispatchMove_timers)
qed

lemma onEnd_not_scrolling: "\<not> scrolling (onEnd cfg ev s)"
  by (simp add: onEnd_def Let_def scheduleStop_def)

lemma fire_not_scrolling: "\<not> scrolling s \<Longrightarrow> \<not> scrolling (fire cfg h s)"
proof -
  assume a: "\<not> scrolling s"
  have "scrolling (tick cfg h f s) = scrolling s" for f
    by (cases "fl_element f")
       (simp_all add: tick_def Let_def tickX_def tickY_def clearScrollInterval_def
          clearTimer_def split: option.split)
  moreover have "\<not> scrolling (stopCallback s')" for s'
    by (simp add: stopCallback_def Let_def)
  ultimately show ?thesis
    using a by (simp add: fire_def split: option.split timer.split)
qed

text \<open>
  A drag that starts while the flag is not set and whose accumulated distance stays below
  the minimum never reports scrolling, during tracking or after the release, and its
  release starts no timer at all.
\<close>

lemma below_minimum_never_scrolling:
  assumes "\<not> scrolling s0" and found: "findScrollable cfg d (target e0) 0 \<noteq> None"
    and below: "totalDelta (run cfg d s0 (Start e0 # map Move ms)) < minimum cfg"
  shows "\<not> isScrolling (run cfg d s0 (Start e0 # map Move (take k ms)))"
    and "\<not> isScrolling (run cfg d s0 (Start e0 # map Move ms @ [End e]))"
    and "timers (run cfg d s0 (Start e0 # map Move ms @ [End e])) = timers s0"
    and "scrollInterval (run cfg d s0 (Start e0 # map Move ms @ [End e])) = scrollInterval s0"
proof -
  let ?s = "run cfg d s0 (Start e0 # map Move ms)"
  have "totalDelta (run cfg d s0 (Start e0 # map Move (take k ms))) < minimum cfg"
    using drag_summary(3) [OF found, where k = k and ms = ms and ?s0.0 = s0] below by simp
  then have "\<not> scrolling (run cfg d s0 (Start e0 # map Move (take k ms)))"
    using drag_summary(2) [OF found, where ms = "take k ms" and ?s0.0 = s0] assms(1) by simp
  then show "\<not> isScrolling (run cfg d s0 (Start e0 # map Move (take k ms)))"
    by (simp add: isScrolling_def)
  have e: "run cfg d s0 (Start e0 # map Move ms @ [End e])
      = onEnd cfg e (?s\<lparr> defaultPrevented := False \<rparr>)"
    by (simp add: run_def)
  show "\<not> isScrolling (run cfg d s0 (Start e0 # map Move ms @ [End e]))"
    unfolding e by (simp add: isScrolling_def onEnd_not_scrolling)
  have r: "?s = run cfg d (step cfg d s0 (Start e0)) (map Move ms)"
    by (simp add: run_def)
  have b: "totalDelta (?s\<lparr> defaultPrevented := False \<rparr>) < minimum cfg"
    using below by simp
  show "timers (run cfg d s0 (Start e0 # map Move ms @ [End e])) = timers s0"
    unfolding e onEnd_below_minimum(3) [OF b]
    by (simp add: r run_moves_timers onStart_timers)
  show "scrollInterval (run cfg d s0 (Start e0 # map Move ms @ [End e])) = scrollInterval s0"
    unfolding e onEnd_below_minimum(4) [OF b]
    by (simp add: r run_moves_timers onStart_timers)
qed

text \<open>
  Once the accumulated distance exceeds the minimum the controller reports scrolling. The
  end event clears the flag, and a timer that fires right after it leaves it cleared.
\<close>

lemma above_minimum_scrolling:
  assumes found: "findScrollable cfg d (target e0) 0 \<noteq> None" and "ms \<noteq> []"
    and above: "minimum cfg < totalDelta (run cfg d s0 (Start e0 # map Move ms))"
  shows "isScrolling (run cfg d s0 (Start e0 # map Move ms))"
    and "\<not> isScrolling (run cfg d s0 (Start e0 # map Move ms @ [End e]))"
    and "\<not> isScrolling (run cfg d s0 (Start e0 # map Move ms @ [End e, Fire h]))"
proof -
  let ?s = "run cfg d s0 (Start e0 # map Move ms)"
  show "isScrolling ?s"
    using drag_summary(1,2) [OF found, where ms = ms and ?s0.0 = s0] assms(2) above
    by (simp add: isScrolling_def)
  have e: "run cfg d s0 (Start e0 # map Move ms @ [End e])
      = onEnd cfg e (?s\<lparr> defaultPrevented := False \<rparr>)"
    by (simp add: run_def)
  show "\<not> isScrolling (run cfg d s0 (Start e0 # map Move ms @ [End e]))"
    unfolding e by (simp add: isScrolling_def onEnd_not_scrolling)
  have f: "run cfg d s0 (Start e0 # map Move ms @ [End e, Fire h])
      = fire cfg h (onEnd cfg e (?s\<lparr> defaultPrevented := False \<rparr>))"
    by (simp add: run_def)
  show "\<not> isScrolling (run cfg d s0 (Start e0 # map Move ms @ [End e, Fire h]))"
    unfolding f by (simp add: isScrolling_def fire_not_scrolling onEnd_not_scrolling)
qed

text \<open>
  The element stays null from the moment it is cleared until the next start event.
\<close>

lemma onEnd_element:
  "element (onEnd cfg ev s) = (if totalDelta s < minimum cfg then None else element s)"
proof -
  have "element (scheduleStop s') = element s'" for s'
    by (simp add: scheduleStop_def Let_def clearTimer_def split: option.split)
  moreover have "element (releaseFling ev s') = element s'" for s'
    by (simp add: releaseFling_def Let_def smoothScrollBy_def clearTimer_def split: option.split)
  ultimately show ?thesis
    by (simp add: onEnd_def Let_def removeMoveEvent_def)
qed

lemma fire_keeps_no_element: "element s = None \<Longrightarrow> element (fire cfg h s) = None"
  by (simp add: fire_def stopCallback_element tick_element split: option.split timer.split)

lemma step_keeps_no_element:
  assumes "element s = None" and "\<not> isStart a"
  shows "element (step cfg d s a) = None"
proof (cases a)
  case (Start ev)
  then show ?thesis using assms(2) by simp
next
  case (Move ev)
  then show ?thesis using assms(1) by (simp add: dispatchMove_element)
next
  case (End ev)
  then show ?thesis using assms(1) by (simp add: onEnd_element)
next
  case (Fire h)
  then show ?thesis using assms(1) by (simp add: fire_keeps_no_element)
qed

lemma run_keeps_no_element:
  assumes "element s = None" and "\<forall>a\<in>set tr. \<not> isStart a"
  shows "element (run cfg d s tr) = None"
  using assms unfolding run_def
  by (induction tr arbitrary: s) (simp_all add: step_keeps_no_element)

lemma fire_settle:
  assumes "timers s h = Some Timeout"
  shows "element (fire cfg h s) = None"
  using assms by (simp add: fire_def stopCallback_element)

text \<open>
  Claim C1 fails at three inputs. It says that a drag whose accumulated distance is
  greater than or equal to the minimum reports scrolling during tracking; \<^verbatim>\<open>onMove\<close>
  sets the flag when \<^verbatim>\<open>totalDelta > minimum\<close>, and after the drag \<open>boundaryDrag\<close> of
  exactly the minimum, 25 pixels, the controller has not reported scrolling at any moment
  (while \<^verbatim>\<open>onEnd\<close>, which takes a release for a tap only when
  \<^verbatim>\<open>totalDelta < minimum\<close>, suppresses the default action and starts a fling). It says
  that a drag whose accumulated distance stays below the minimum never reports scrolling;
  the second drag of \<open>staleFlagDrag\<close>, of 10 pixels, starts while the flag of the drag
  before it, which no end event closed, is still set, and reports scrolling from its start
  event on. And with a minimum of -1 a press and release without any move event has an
  accumulated distance of 0, above the minimum, and never reports scrolling.
\<close>

theorem drag_scrolling_flag_counterexample:
  "minimum defaultConfig = 25
   \<and> totalDelta (run defaultConfig (chainDom 3 0) freshState (take 2 boundaryDrag)) = 25
   \<and> isScrolling (run defaultConfig (chainDom 3 0) freshState (take 1 boundaryDrag)) = False
   \<and> isScrolling (run defaultConfig (chainDom 3 0) freshState (take 2 boundaryDrag)) = False
   \<and> isScrolling (run defaultConfig (chainDom 3 0) freshState boundaryDrag) = False
   \<and> defaultPrevented (run defaultConfig (chainDom 3 0) freshState boundaryDrag) = True
   \<and> isFling (timers (run defaultConfig (chainDom 3 0) freshState boundaryDrag) 1)
   \<and> drop 2 staleFlagDrag
       = [Start (mkEvent 100 0 100 100), Move (mkEvent 150 0 95 95), End (mkEvent 200 0 95 95)]
   \<and> scrolling (run defaultConfig (chainDom 3 0) freshState (take 2 staleFlagDrag)) = True
   \<and> totalDelta (run defaultConfig (chainDom 3 0) freshState (take 4 staleFlagDrag)) = 10
   \<and> isScrolling (run defaultConfig (chainDom 3 0) freshState (take 3 staleFlagDrag)) = True
   \<and> isScrolling (run defaultConfig (chainDom 3 0) freshState (take 4 staleFlagDrag)) = True
   \<and> minimum negativeMinimumConfig = - 1
   \<and> totalDelta (run negativeMinimumConfig (chainDom 3 0) freshState (take 1 tap)) = 0
   \<and> isScrolling (run negativeMinimumConfig (chainDom 3 0) freshState (take 1 tap)) = False
   \<and> isScrolling (run negativeMinimumConfig (chainDom 3 0) freshState tap) = False"
  by (intro conjI; code_simp)

text \<open>
  Claim C1, amended. Take a drag that starts on a scrollable element. If it starts while
  the flag is not set and its accumulated distance stays below the minimum, the
  controller reports scrolling at no moment of the drag, nor after the end event,
  whatever happens until the next start event, and the end event starts no timer: no
  fling. If the drag has a move event and its accumulated distance exceeds the minimum,
  the controller reports scrolling when the moves are handled; the end event leaves a
  settle timeout pending, and when that timeout fires, whatever move events were handled
  since the end event, the controller no longer reports scrolling, nor does it until the
  next start event.
\<close>

theorem drag_scrolling_flag:
  assumes found: "findScrollable cfg d (target e0) 0 \<noteq> None"
  shows
    "(\<not> scrolling s0 \<and> totalDelta (run cfg d s0 (Start e0 # map Move ms)) < minimum cfg \<longrightarrow>
        (\<forall>k. \<not> isScrolling (run cfg d s0 (Start e0 # map Move (take k ms))))
        \<and> (\<forall>tr. (\<forall>a\<in>set tr. \<not> isStart a) \<longrightarrow>
              \<not> isScrolling (run cfg d s0 (Start e0 # map Move ms @ End e # tr)))
        \<and> timers (run cfg d s0 (Start e0 # map Move ms @ [End e])) = timers s0
        \<and> scrollInterval (run cfg d s0 (Start e0 # map Move ms @ [End e])) = scrollInterval s0)
     \<and> (ms \<noteq> [] \<and> minimum cfg < totalDelta (run cfg d s0 (Start e0 # map Move ms)) \<longrightarrow>
        isScrolling (run cfg d s0 (Start e0 # map Move ms))
        \<and> (\<exists>h. stopTimeout (run cfg d s0 (Start e0 # map Move ms @ [End e])) = Some h
               \<and> timers (run cfg d s0 (Start e0 # map Move ms @ [End e])) h = Some Timeout
               \<and> (\<forall>ms' tr. (\<forall>a\<in>set tr. \<not> isStart a) \<longrightarrow>
                     \<not> isScrolling (run cfg d s0
                         (Start e0 # map Move ms @ End e # map Move ms' @ Fire h # tr)))))"
proof (intro conjI impI)
  assume a: "\<not> scrolling s0 \<and> totalDelta (run cfg d s0 (Start e0 # map Move ms)) < minimum cfg"
  then have quiet: "\<not> scrolling s0"
    and below: "totalDelta (run cfg d s0 (Start e0 # map Move ms)) < minimum cfg"
    by simp_all
  let ?s = "run cfg d s0 (Start e0 # map Move ms)"
  let ?sE = "run cfg d s0 (Start e0 # map Move ms @ [End e])"
  show "\<forall>k. \<not> isScrolling (run cfg d s0 (Start e0 # map Move (take k ms)))"
    using below_minimum_never_scrolling(1) [OF quiet found below] by blast
  show "timers ?sE = timers s0"
    by (rule below_minimum_never_scrolling(3) [OF quiet found below])
  show "scrollInterval ?sE = scrollInterval s0"
    by (rule below_minimum_never_scrolling(4) [OF quiet found below])
  have e: "?sE = onEnd cfg e (?s\<lparr> defaultPrevented := False \<rparr>)"
    by (simp add: run_def)
  have none: "element ?sE = None"
    unfolding e using below by (simp add: onEnd_element)
  show "\<forall>tr. (\<forall>a\<in>set tr. \<not> isStart a) \<longrightarrow>
      \<not> isScrolling (run cfg d s0 (Start e0 # map Move ms @ End e # tr))"
  proof (intro allI impI)
    fix tr
    assume tr: "\<forall>a\<in>set tr. \<not> isStart a"
    have "run cfg d s0 (Start e0 # map Move ms @ End e # tr) = run cfg d ?sE tr"
      by (simp add: run_def)
    then show "\<not> isScrolling (run cfg d s0 (Start e0 # map Move ms @ End e # tr))"
      using run_keeps_no_element [OF none tr, of cfg d] by (simp add: isScrolling_def)
  qed
next
  assume a: "ms \<noteq> [] \<and> minimum cfg < totalDelta (run cfg d s0 (Start e0 # map Move ms))"
  then have ne: "ms \<noteq> []" and gt: "minimum cfg < totalDelta (run cfg d s0 (Start e0 # map Move ms))"
    by simp_all
  let ?s = "run cfg d s0 (Start e0 # map Move ms)"
  let ?sE = "run cfg d s0 (Start e0 # map Move ms @ [End e])"
  show "isScrolling ?s"
    by (rule above_minimum_scrolling(1) [OF found ne gt])
  have e: "?sE = onEnd cfg e (?s\<lparr> defaultPrevented := False \<rparr>)"
    by (simp add: run_def)
  have "\<not> totalDelta (?s\<lparr> defaultPrevented := False \<rparr>) < minimum cfg"
    using gt by simp
  then have "settlePending ?sE"
    unfolding e using onEnd_element_or_pending [of "?s\<lparr> defaultPrevented := False \<rparr>" cfg e]
    by blast
  then obtain h where h: "stopTimeout ?sE = Some h" "timers ?sE h = Some Timeout"
    by (auto simp: settlePending_def split: option.splits)
  have after: "\<not> isScrolling (run cfg d s0
      (Start e0 # map Move ms @ End e # map Move ms' @ Fire h # tr))"
    if tr: "\<forall>a\<in>set tr. \<not> isStart a" for ms' tr
  proof -
    let ?sM = "run cfg d ?sE (map Move ms')"
    have "timers ?sM h = Some Timeout"
      using h(2) run_moves_timers [of cfg d ?sE ms'] by simp
    then have none: "element (fire cfg h ?sM) = None" by (rule fire_settle)
    have "run cfg d s0 (Start e0 # map Move ms @ End e # map Move ms' @ Fire h # tr)
        = run cfg d (fire cfg h ?sM) tr"
      by (simp add: run_def)
    then show ?thesis
      using run_keeps_no_element [OF none tr, of cfg d] by (simp add: isScrolling_def)
  qed
  show "\<exists>h. stopTimeout ?sE = Some h \<and> timers ?sE h = Some Timeout
      \<and> (\<forall>ms' tr. (\<forall>a\<in>set tr. \<not> isStart a) \<longrightarrow>
            \<not> isScrolling (run cfg d s0
                (Start e0 # map Move ms @ End e # map Move ms' @ Fire h # tr)))"
    using h after by blast
qed

theorem drag_scrolling_flag_witness:
  "totalDelta (run defaultConfig (chainDom 3 0) freshState (take 2 shortDrag)) = 10
   \<and> isScrolling (run defaultConfig (chainDom 3 0) freshState (take 2 shortDrag)) = False
   \<and> isScrolling (run defaultConfig (chainDom 3 0) freshState shortDrag) = False
   \<and> timers (run defaultConfig (chainDom 3 0) freshState shortDrag) = timers freshState
   \<and> totalDelta (run defaultConfig (chainDom 3 0) freshState (take 2 settleMoveDrag)) = 100
   \<and> isScrolling (run defaultConfig (chainDom 3 0) freshState (take 2 settleMoveDrag)) = True
   \<and> stopTimeout (run defaultConfig (chainDom 3 0) freshState (take 3 settleMoveDrag)) = Some 2
   \<and> isScrolling (run defaultConfig (chainDom 3 0) freshState (take 4 settleMoveDrag)) = True
   \<and> isScrolling (run defaultConfig (chainDom 3 0) freshState settleMoveDrag) = False"
proof -
  let ?run = "run defaultConfig (chainDom 3 0) freshState"
  have found: "findScrollable defaultConfig (chainDom 3 0) (target (mkEvent 0 0 x y)) 0 \<noteq> None"
    for x y
    by (simp add: mkEvent_def isScrollable_def defaultConfig_def newConfig_def selectorOf_def
        chainDom_def)
  have min: "minimum defaultConfig = 25"
    by (simp add: defaultConfig_def newConfig_def)
  have sd: "take 2 shortDrag = Start (mkEvent 0 0 100 100) # map Move (take 1 [mkEvent 50 0 95 95])"
    "Start (mkEvent 0 0 100 100) # map Move [mkEvent 50 0 95 95] = take 2 shortDrag"
    "Start (mkEvent 0 0 100 100) # map Move [mkEvent 50 0 95 95] @ End (mkEvent 100 0 95 95) # []
       = shortDrag"
    "Start (mkEvent 0 0 100 100) # map Move [mkEvent 50 0 95 95] @ [End (mkEvent 100 0 95 95)]
       = shortDrag"
    by (simp_all add: shortDrag_def)
  have md: "Start (mkEvent 0 0 200 100) # map Move [mkEvent 50 0 100 100] = take 2 settleMoveDrag"
    "Start (mkEvent 0 0 200 100) # map Move [mkEvent 50 0 100 100] @ [End (mkEvent 250 0 100 100)]
       = take 3 settleMoveDrag"
    "Start (mkEvent 0 0 200 100) # map Move [mkEvent 50 0 100 100] @ End (mkEvent 250 0 100 100)
       # map Move [mkEvent (501 / 2) 0 90 100] @ Fire 2 # [] = settleMoveDrag"
    by (simp_all add: settleMoveDrag_def)
  have short: "totalDelta (?run (take 2 shortDrag)) = 10"
    by code_simp
  have long: "totalDelta (?run (take 2 settleMoveDrag)) = 100"
    by code_simp
  have handle: "stopTimeout (?run (take 3 settleMoveDrag)) = Some 2"
    by code_simp
  have again: "isScrolling (?run (take 4 settleMoveDrag)) = True"
    by code_simp
  note below = drag_scrolling_flag [where ?s0.0 = freshState and ms = "[mkEvent 50 0 95 95]"
      and e = "mkEvent 100 0 95 95", OF found [of 100 100], THEN conjunct1, rule_format]
  note above = drag_scrolling_flag [where ?s0.0 = freshState and ms = "[mkEvent 50 0 100 100]"
      and e = "mkEvent 250 0 100 100", OF found [of 200 100], THEN conjunct2, rule_format]
  have lt: "\<not> scrolling freshState
      \<and> totalDelta (?run (Start (mkEvent 0 0 100 100) # map Move [mkEvent 50 0 95 95]))
          < minimum defaultConfig"
    unfolding sd(2) short min by (simp add: freshState_def newState_def)
  have gt: "[mkEvent 50 0 100 100] \<noteq> []
      \<and> minimum defaultConfig
          < totalDelta (?run (Start (mkEvent 0 0 200 100) # map Move [mkEvent 50 0 100 100]))"
    unfolding md(1) long min by simp
  have b1: "\<not> isScrolling (?run (take 2 shortDrag))"
    using below [OF lt, THEN conjunct1, rule_format, of 1] unfolding sd(1) .
  have b2: "\<not> isScrolling (?run shortDrag)"
    using below [OF lt, THEN conjunct2, THEN conjunct1, rule_format, where tr = "[]"]
    unfolding sd(3) by simp
  have b3: "timers (?run shortDrag) = timers freshState"
    using below [OF lt, THEN conjunct2, THEN conjunct2, THEN conjunct1] unfolding sd(4) .
  have a1: "isScrolling (?run (take 2 settleMoveDrag))"
    using above [OF gt, THEN conjunct1] unfolding md(1) .
  from above [OF gt, THEN conjunct2] obtain h where h:
    "stopTimeout (?run (take 3 settleMoveDrag)) = Some h"
    "\<forall>ms' tr. (\<forall>a\<in>set tr. \<not> isStart a) \<longrightarrow>
        \<not> isScrolling (?run (Start (mkEvent 0 0 200 100) # map Move [mkEvent 50 0 100 100]
            @ End (mkEvent 250 0 100 100) # map Move ms' @ Fire h # tr))"
    unfolding md(2) by blast
  have "h = 2" using h(1) handle by simp
  then have "\<not> isScrolling (?run (Start (mkEvent 0 0 200 100) # map Move [mkEvent 50 0 100 100]
            @ End (mkEvent 250 0 100 100) # map Move [mkEvent (501 / 2) 0 90 100] @ Fire 2 # []))"
    using h(2) [rule_format, where tr = "[]" and ms' = "[mkEvent (501 / 2) 0 90 100]"] by simp
  then have a2: "\<not> isScrolling (?run settleMoveDrag)"
    unfolding md(3) .
  show ?thesis
    using short b1 b2 b3 long a1 handle again a2 by simp
qed

end
